theory Spec2Isabelle
  imports Complex_Main "HOL-Library.Sublist"
begin

section \<open>Python strings\<close>

text \<open>
  A \<^verbatim>\<open>str\<close> of \<^verbatim>\<open>app.py\<close> is modelled by its UTF-8 encoding, a \<^typ>\<open>string\<close> with one
  \<^typ>\<open>char\<close> per byte, so an ASCII character is one \<^typ>\<open>char\<close>. \<^verbatim>\<open>lower\<close> and
  \<^verbatim>\<open>strip\<close> are modelled on ASCII text: \<^verbatim>\<open>lower\<close> moves the 26 letters and leaves every
  other byte alone, and the white space that \<^verbatim>\<open>strip\<close> removes is the ASCII white space
  of \<^verbatim>\<open>str.isspace\<close>.
\<close>

definition ascii_lowercase :: string where
  "ascii_lowercase = ''abcdefghijklmnopqrstuvwxyz''"

definition ascii_uppercase :: string where
  "ascii_uppercase = ''ABCDEFGHIJKLMNOPQRSTUVWXYZ''"

definition upper_char :: "char \<Rightarrow> char" where
  "upper_char c =
     (case map_of (zip ascii_lowercase ascii_uppercase) c of Some u \<Rightarrow> u | None \<Rightarrow> c)"

definition lower_char :: "char \<Rightarrow> char" where
  "lower_char c =
     (case map_of (zip ascii_uppercase ascii_lowercase) c of Some l \<Rightarrow> l | None \<Rightarrow> c)"

text \<open>
  \<^verbatim>\<open>s.upper()\<close>. Beyond the 26 letters, \<^verbatim>\<open>str.upper\<close> gives ASCII text for ten
  characters that are not ASCII: the dotless i (U+0131, bytes C4 B1) becomes \<^verbatim>\<open>I\<close>, the
  long s (U+017F, C5 BF) becomes \<^verbatim>\<open>S\<close>, the sharp s (U+00DF, C3 9F) becomes \<^verbatim>\<open>SS\<close>, and
  the ligatures U+FB00 to U+FB06 (EF AC 80 to EF AC 86) become \<^verbatim>\<open>FF\<close>, \<^verbatim>\<open>FI\<close>,
  \<^verbatim>\<open>FL\<close>, \<^verbatim>\<open>FFI\<close>, \<^verbatim>\<open>FFL\<close>, \<^verbatim>\<open>ST\<close> and \<^verbatim>\<open>ST\<close>. Every other character that is
  not ASCII has an upper case that is not ASCII either; its bytes are left as they are, so
  the model and \<^verbatim>\<open>str.upper\<close> agree whenever either gives ASCII text, which is all that the
  comparison with an ASCII literal sees.
\<close>

definition upper2 :: "char \<Rightarrow> char \<Rightarrow> string option" where
  "upper2 c d =
     (if c = CHR 0xC4 \<and> d = CHR 0xB1 then Some ''I''
      else if c = CHR 0xC5 \<and> d = CHR 0xBF then Some ''S''
      else if c = CHR 0xC3 \<and> d = CHR 0x9F then Some ''SS''
      else None)"

definition upper3 :: "char \<Rightarrow> char \<Rightarrow> char \<Rightarrow> string option" where
  "upper3 c d e =
     (if c = CHR 0xEF \<and> d = CHR 0xAC then
        map_of [(CHR 0x80, ''FF''), (CHR 0x81, ''FI''), (CHR 0x82, ''FL''), (CHR 0x83, ''FFI''),
                (CHR 0x84, ''FFL''), (CHR 0x85, ''ST''), (CHR 0x86, ''ST'')] e
      else None)"

fun py_upper :: "string \<Rightarrow> string" where
  "py_upper (c # d # e # cs) =
     (case upper3 c d e of
        Some u \<Rightarrow> u @ py_upper cs
      | None \<Rightarrow>
          (case upper2 c d of
             Some u \<Rightarrow> u @ py_upper (e # cs)
           | None \<Rightarrow> upper_char c # py_upper (d # e # cs)))"
| "py_upper [c, d] = (case upper2 c d of Some u \<Rightarrow> u | None \<Rightarrow> [upper_char c, upper_char d])"
| "py_upper [c] = [upper_char c]"
| "py_upper [] = []"

definition py_lower :: "string \<Rightarrow> string" where
  "py_lower s = map lower_char s"

definition whitespace :: string where
  "whitespace =
     [CHR 0x09, CHR 0x0A, CHR 0x0B, CHR 0x0C, CHR 0x0D, CHR 0x1C, CHR 0x1D, CHR 0x1E,
      CHR 0x1F, CHR 0x20]"

definition py_isspace :: "char \<Rightarrow> bool" where
  "py_isspace c = (c \<in> set whitespace)"

definition py_strip :: "string \<Rightarrow> string" where
  "py_strip s = rev (dropWhile py_isspace (rev (dropWhile py_isspace s)))"

text \<open>\<^verbatim>\<open>s.split(sep)\<close> for a one-character separator: the fields between the
  separators, never an empty list.\<close>

fun py_split :: "char \<Rightarrow> string \<Rightarrow> string list" where
  "py_split sep [] = [[]]"
| "py_split sep (c # cs) =
     (if c = sep then [] # py_split sep cs
      else (case py_split sep cs of
              [] \<Rightarrow> [[c]]
            | f # fs \<Rightarrow> (c # f) # fs))"

text \<open>\<^verbatim>\<open>"." in s\<close> on a string.\<close>

definition has_dot :: "string \<Rightarrow> bool" where
  "has_dot s = (CHR ''.'' \<in> set s)"

text \<open>Equality of two strings up to the case of the 26 letters, the spec's reading of the
  comparison with the literal \<^verbatim>\<open>AVAILABLE\<close>; the upper case of ASCII text; ASCII text.\<close>

definition equal_ignoring_case :: "string \<Rightarrow> string \<Rightarrow> bool" where
  "equal_ignoring_case s t = (py_lower s = py_lower t)"

definition ascii_upper :: "string \<Rightarrow> string" where
  "ascii_upper s = map upper_char s"

definition is_ascii :: "string \<Rightarrow> bool" where
  "is_ascii s = list_all (\<lambda>c. (of_char c :: nat) < 128) s"

section \<open>Parsed JSON and Python exceptions\<close>

text \<open>
  The value \<^verbatim>\<open>response.json()\<close> or \<^verbatim>\<open>request.json\<close> returns. A JSON object is
  the Python dict it parses to, kept as an association list that \<^const>\<open>map_of\<close> reads;
  JSON null is Python's \<^verbatim>\<open>None\<close>. A JSON number parses to an \<^verbatim>\<open>int\<close> or to a
  \<^verbatim>\<open>float\<close>; of a float the source uses only whether it is zero and what
  \<^verbatim>\<open>int()\<close> truncates it to, so a finite float is the rational it denotes.
\<close>

datatype json =
    JNull
  | JBool bool
  | JInt int
  | JFloat rat
  | JString string
  | JArray "json list"
  | JObject "(string \<times> json) list"

datatype py_exn =
    RequestException string
  | JSONDecodeError
  | TypeError
  | AttributeError
  | KeyError
  | ValueError
  | SMTPException string
  | RuntimeError_WHOIS py_exn

text \<open>Truth value of a Python object in \<^verbatim>\<open>if status:\<close>.\<close>

fun truthy :: "json \<Rightarrow> bool" where
  "truthy JNull = False"
| "truthy (JBool b) = b"
| "truthy (JInt n) = (n \<noteq> 0)"
| "truthy (JFloat q) = (q \<noteq> 0)"
| "truthy (JString s) = (s \<noteq> [])"
| "truthy (JArray xs) = (xs \<noteq> [])"
| "truthy (JObject kvs) = (kvs \<noteq> [])"

text \<open>\<^verbatim>\<open>key in data\<close> for a string key: membership of a key in a dict, of an element
  in a list, of a substring in a string; a TypeError on anything else.\<close>

fun py_in :: "string \<Rightarrow> json \<Rightarrow> py_exn + bool" where
  "py_in k (JObject kvs) = Inr (k \<in> set (map fst kvs))"
| "py_in k (JArray xs) = Inr (JString k \<in> set xs)"
| "py_in k (JString s) = Inr (sublist k s)"
| "py_in k JNull = Inl TypeError"
| "py_in k (JBool b) = Inl TypeError"
| "py_in k (JInt n) = Inl TypeError"
| "py_in k (JFloat q) = Inl TypeError"

text \<open>\<^verbatim>\<open>data[key]\<close> for a string key.\<close>

fun py_getitem :: "json \<Rightarrow> string \<Rightarrow> py_exn + json" where
  "py_getitem (JObject kvs) k = (case map_of kvs k of Some v \<Rightarrow> Inr v | None \<Rightarrow> Inl KeyError)"
| "py_getitem (JArray xs) k = Inl TypeError"
| "py_getitem (JString s) k = Inl TypeError"
| "py_getitem JNull k = Inl TypeError"
| "py_getitem (JBool b) k = Inl TypeError"
| "py_getitem (JInt n) k = Inl TypeError"
| "py_getitem (JFloat q) k = Inl TypeError"

text \<open>\<^verbatim>\<open>data.get(key, default)\<close>: only a dict has the method.\<close>

fun py_get :: "json \<Rightarrow> string \<Rightarrow> json \<Rightarrow> py_exn + json" where
  "py_get (JObject kvs) k d = Inr (case map_of kvs k of Some v \<Rightarrow> v | None \<Rightarrow> d)"
| "py_get (JArray xs) k d = Inl AttributeError"
| "py_get (JString s) k d = Inl AttributeError"
| "py_get JNull k d = Inl AttributeError"
| "py_get (JBool b) k d = Inl AttributeError"
| "py_get (JInt n) k d = Inl AttributeError"
| "py_get (JFloat q) k d = Inl AttributeError"

text \<open>\<^verbatim>\<open>status.upper()\<close>: only a string has the method.\<close>

fun py_upper_method :: "json \<Rightarrow> py_exn + string" where
  "py_upper_method (JString s) = Inr (py_upper s)"
| "py_upper_method JNull = Inl AttributeError"
| "py_upper_method (JBool b) = Inl AttributeError"
| "py_upper_method (JInt n) = Inl AttributeError"
| "py_upper_method (JFloat q) = Inl AttributeError"
| "py_upper_method (JArray xs) = Inl AttributeError"
| "py_upper_method (JObject kvs) = Inl AttributeError"

section \<open>The WHOIS availability check\<close>

text \<open>
  What \<^verbatim>\<open>requests.get\<close> followed by \<^verbatim>\<open>response.json()\<close> can give:
  the request raises (no connection, timeout), or a response arrives with its HTTP status
  code and a body that parses as JSON (\<open>Some\<close>) or does not (\<open>None\<close>).
\<close>

datatype remote = RequestRaises string | Response nat "json option"

text \<open>The status the \<^verbatim>\<open>try\<close> block of \<^verbatim>\<open>whoisxml_check\<close> reads off the body.\<close>

definition whois_status :: "json \<Rightarrow> py_exn + json" where
  "whois_status data =
     (case py_in ''DomainInfo'' data of
        Inl e \<Rightarrow> Inl e
      | Inr True \<Rightarrow>
          (case py_getitem data ''DomainInfo'' of
             Inl e \<Rightarrow> Inl e
           | Inr info \<Rightarrow> py_get info ''domainAvailability'' JNull)
      | Inr False \<Rightarrow> py_get data ''domainAvailability'' JNull)"

text \<open>\<^verbatim>\<open>whoisxml_check\<close> as a function of what the remote call gave: every exception
  of the \<^verbatim>\<open>try\<close> block is raised again as the RuntimeError that wraps it, and a
  status that is not truthy falls through to \<^verbatim>\<open>return False\<close>.\<close>

definition whoisxml_result :: "remote \<Rightarrow> py_exn + bool" where
  "whoisxml_result r =
     (case r of
        RequestRaises m \<Rightarrow> Inl (RuntimeError_WHOIS (RequestException m))
      | Response code None \<Rightarrow> Inl (RuntimeError_WHOIS JSONDecodeError)
      | Response code (Some data) \<Rightarrow>
          (case whois_status data of
             Inl e \<Rightarrow> Inl (RuntimeError_WHOIS e)
           | Inr status \<Rightarrow>
               if truthy status then
                 (case py_upper_method status of
                    Inl e \<Rightarrow> Inl (RuntimeError_WHOIS e)
                  | Inr u \<Rightarrow> Inr (u = ''AVAILABLE''))
               else Inr False))"

section \<open>Domain suggestions\<close>

definition COMMON_TLDS :: "string list" where
  "COMMON_TLDS =
     [''.com'', ''.net'', ''.org'', ''.io'', ''.co'', ''.ai'', ''.xyz'', ''.tech'', ''.dev'',
      ''.app'', ''.tv'', ''.me'', ''.link'', ''.shop'']"

definition prefixes :: "string list" where
  "prefixes =
     [''get'', ''try'', ''the'', ''my'', ''use'', ''go'', ''hey'', ''join'', ''is'', ''do'',
      ''pro'', ''ultra'']"

definition suffixes :: "string list" where
  "suffixes =
     [''app'', ''hq'', ''space'', ''online'', ''site'', ''hub'', ''labs'', ''io'', ''dev'',
      ''pro'', ''tv'', ''cloud'']"

definition double_suffixes :: "string list" where
  "double_suffixes = [''hub.io'', ''labs.io'', ''dev.io'', ''app.io'', ''online.io'']"

definition variations :: "string \<Rightarrow> string list" where
  "variations label =
     [label @ ''app.com'', label @ ''pro.com'', label @ ''online.com'', label @ ''ai.com'']"

text \<open>\<^verbatim>\<open>list(dict.fromkeys(xs))\<close>: the keys of an insertion-ordered dict, each at the
  place of its first insertion.\<close>

definition dict_fromkeys :: "'a list \<Rightarrow> 'a list" where
  "dict_fromkeys xs = fold (\<lambda>x keys. if x \<in> set keys then keys else keys @ [x]) xs []"

text \<open>The slice \<^verbatim>\<open>xs[:k]\<close>: a negative \<open>k\<close> counts from the end.\<close>

definition py_slice_to :: "'a list \<Rightarrow> int \<Rightarrow> 'a list" where
  "py_slice_to xs k = (if 0 \<le> k then take (nat k) xs else take (length xs - nat (- k)) xs)"

text \<open>The base label: the part of the lower-cased query before its first dot.\<close>

definition label_of :: "string \<Rightarrow> string" where
  "label_of query = (if has_dot query then hd (py_split (CHR ''.'') query) else query)"

text \<open>The five \<^verbatim>\<open>for\<close> loops append to \<^verbatim>\<open>candidates\<close> one after the other.\<close>

definition candidates_of :: "string \<Rightarrow> string list" where
  "candidates_of label =
     (let c0 = [];
          c1 = fold (\<lambda>tld c. c @ [label @ tld]) COMMON_TLDS c0;
          c2 = fold (\<lambda>p c. c @ [p @ label @ ''.com'']) prefixes c1;
          c3 = fold (\<lambda>s c. c @ [label @ s @ ''.com'']) suffixes c2;
          c4 = fold (\<lambda>ds c. c @ [label @ ''.'' @ ds]) double_suffixes c3;
          c5 = fold (\<lambda>var c. c @ [var]) (variations label) c4
      in c5)"

definition generate_suggestions :: "string \<Rightarrow> int \<Rightarrow> string list" where
  "generate_suggestions query max_suggestions =
     py_slice_to (dict_fromkeys (candidates_of (label_of (py_lower query)))) (max_suggestions * 3)"

text \<open>The spec's words for the same list: the source lists in their fixed order, and the
  removal of duplicates that keeps the first occurrence of each string.\<close>

definition candidate_pool :: "string \<Rightarrow> string list" where
  "candidate_pool label =
     map (\<lambda>tld. label @ tld) COMMON_TLDS
     @ map (\<lambda>p. p @ label @ ''.com'') prefixes
     @ map (\<lambda>s. label @ s @ ''.com'') suffixes
     @ map (\<lambda>ds. label @ ''.'' @ ds) double_suffixes
     @ variations label"

fun keep_first :: "'a list \<Rightarrow> 'a list" where
  "keep_first [] = []"
| "keep_first (x # xs) = x # keep_first (filter (\<lambda>y. y \<noteq> x) xs)"

section \<open>The registration table and the outside world\<close>

text \<open>A row of the \<^verbatim>\<open>Notification\<close> model. The primary key is \<open>row_id\<close>
  (\<^verbatim>\<open>id\<close> in the source); \<open>created_at\<close> is the clock reading at the insert.\<close>

record notification =
  row_id :: nat
  domain :: string
  email :: string
  notified :: bool
  created_at :: rat

record mail =
  mail_to :: string
  mail_subject :: string
  mail_body :: string

text \<open>
  The collaborators behind the network. The WHOIS API and the mail relay may answer every
  call differently, so both are functions of a logical time, the number of WHOIS requests
  issued so far: \<open>http_get t d\<close> is what the request for \<open>d\<close> issued at time \<open>t\<close>
  gives, and \<open>send_outcome t m\<close> is the exception \<^verbatim>\<open>send_email\<close> raises for the
  mail \<open>m\<close> at time \<open>t\<close> (\<open>None\<close>: the relay accepted it). \<open>int_of_str\<close> is
  Python's \<^verbatim>\<open>int()\<close> on a string (\<open>None\<close>: ValueError).
\<close>

record env =
  http_get :: "nat \<Rightarrow> string \<Rightarrow> remote"
  send_outcome :: "nat \<Rightarrow> mail \<Rightarrow> py_exn option"
  int_of_str :: "string \<Rightarrow> int option"

datatype log_line = EmailSent string | EmailSendFailed py_exn | WhoisFailed py_exn

datatype event = WhoisRequest string | SendEmail mail | Print log_line

text \<open>The state the handlers and the scheduler job share: the table in insertion order,
  the logical time, and the trace of the calls made to the outside, oldest first. The store
  is reliable: \<^verbatim>\<open>db.session.commit()\<close> always succeeds.\<close>

record world =
  table :: "notification list"
  requests_made :: nat
  trace :: "event list"

definition emit :: "event \<Rightarrow> world \<Rightarrow> world" where
  "emit ev w = w\<lparr>trace := trace w @ [ev]\<rparr>"

definition whoisxml_check :: "env \<Rightarrow> string \<Rightarrow> world \<Rightarrow> (py_exn + bool) \<times> world" where
  "whoisxml_check e d w =
     (whoisxml_result (http_get e (requests_made w) d),
      emit (WhoisRequest d) (w\<lparr>requests_made := Suc (requests_made w)\<rparr>))"

definition send_email :: "env \<Rightarrow> string \<Rightarrow> string \<Rightarrow> string \<Rightarrow> world \<Rightarrow> py_exn option \<times> world" where
  "send_email e to_email subject body w =
     (let m = \<lparr>mail_to = to_email, mail_subject = subject, mail_body = body\<rparr>
      in (send_outcome e (requests_made w) m, emit (SendEmail m) w))"

section \<open>The /notify handler\<close>

datatype response_body =
    Message string
  | ErrorBody py_exn
  | CheckBody string bool "string list"

text \<open>A handler gives an HTTP status with a body, or raises: Flask answers an exception
  that leaves a handler with status 500.\<close>

type_synonym response = "py_exn + nat \<times> response_body"

text \<open>\<^verbatim>\<open>value.strip().lower()\<close>: only a string has the methods.\<close>

fun strip_lower :: "json \<Rightarrow> py_exn + string" where
  "strip_lower (JString s) = Inr (py_lower (py_strip s))"
| "strip_lower JNull = Inl AttributeError"
| "strip_lower (JBool b) = Inl AttributeError"
| "strip_lower (JInt n) = Inl AttributeError"
| "strip_lower (JFloat q) = Inl AttributeError"
| "strip_lower (JArray xs) = Inl AttributeError"
| "strip_lower (JObject kvs) = Inl AttributeError"

text \<open>The key the database gives a new row: one more than the largest in the table.\<close>

definition next_id :: "notification list \<Rightarrow> nat" where
  "next_id rows = Suc (fold max (map row_id rows) 0)"

text \<open>\<^verbatim>\<open>Notification.query.filter_by(domain=..., email=..., notified=False).first()\<close>\<close>

definition first_active :: "string \<Rightarrow> string \<Rightarrow> notification list \<Rightarrow> notification option" where
  "first_active d a rows = find (\<lambda>r. domain r = d \<and> email r = a \<and> notified r = False) rows"

definition notify :: "json \<Rightarrow> rat \<Rightarrow> world \<Rightarrow> response \<times> world" where
  "notify data now w =
     (case py_get data ''domain'' (JString []) of
        Inl ex \<Rightarrow> (Inl ex, w)
      | Inr dv \<Rightarrow>
     (case strip_lower dv of
        Inl ex \<Rightarrow> (Inl ex, w)
      | Inr d0 \<Rightarrow>
     (case py_get data ''email'' (JString []) of
        Inl ex \<Rightarrow> (Inl ex, w)
      | Inr ev \<Rightarrow>
     (case strip_lower ev of
        Inl ex \<Rightarrow> (Inl ex, w)
      | Inr a \<Rightarrow>
          (let d = (if \<not> has_dot d0 then d0 @ ''.com'' else d0) in
           case first_active d a (table w) of
             Some r \<Rightarrow> (Inr (200, Message ''Already registered for this domain''), w)
           | None \<Rightarrow>
               (Inr (201, Message ''Notification registered''),
                w\<lparr>table := table w @
                  [\<lparr>row_id = next_id (table w), domain = d, email = a, notified = False,
                    created_at = now\<rparr>]\<rparr>))))))"

section \<open>The /check handler\<close>

text \<open>\<^verbatim>\<open>int(value)\<close>\<close>

fun py_int :: "env \<Rightarrow> json \<Rightarrow> py_exn + int" where
  "py_int e (JInt n) = Inr n"
| "py_int e (JFloat q) = Inr (if 0 \<le> q then \<lfloor>q\<rfloor> else \<lceil>q\<rceil>)"
| "py_int e (JBool b) = Inr (if b then 1 else 0)"
| "py_int e (JString s) = (case int_of_str e s of Some n \<Rightarrow> Inr n | None \<Rightarrow> Inl ValueError)"
| "py_int e JNull = Inl TypeError"
| "py_int e (JArray xs) = Inl TypeError"
| "py_int e (JObject kvs) = Inl TypeError"

text \<open>The loop over the candidates: a raising lookup is skipped by \<^verbatim>\<open>continue\<close>, and
  the loop breaks once \<^verbatim>\<open>len(suggestions) >= max_suggestions\<close>.\<close>

fun suggestion_loop :: "env \<Rightarrow> int \<Rightarrow> string list \<Rightarrow> string list \<Rightarrow> world \<Rightarrow> string list \<times> world" where
  "suggestion_loop e max_suggestions [] suggestions w = (suggestions, w)"
| "suggestion_loop e max_suggestions (cand # cands) suggestions w =
     (case whoisxml_check e cand w of
        (Inl ex, w1) \<Rightarrow> suggestion_loop e max_suggestions cands suggestions w1
      | (Inr ok, w1) \<Rightarrow>
          (let suggestions1 = (if ok then suggestions @ [cand] else suggestions) in
           if max_suggestions \<le> int (length suggestions1) then (suggestions1, w1)
           else suggestion_loop e max_suggestions cands suggestions1 w1))"

definition check_domain :: "env \<Rightarrow> json \<Rightarrow> world \<Rightarrow> response \<times> world" where
  "check_domain e data w =
     (case py_get data ''query'' (JString []) of
        Inl ex \<Rightarrow> (Inl ex, w)
      | Inr qv \<Rightarrow>
     (case strip_lower qv of
        Inl ex \<Rightarrow> (Inl ex, w)
      | Inr query \<Rightarrow>
     (case py_get data ''max_suggestions'' (JInt 6) of
        Inl ex \<Rightarrow> (Inl ex, w)
      | Inr mv \<Rightarrow>
     (case py_int e mv of
        Inl ex \<Rightarrow> (Inl ex, w)
      | Inr max_suggestions \<Rightarrow>
          (let d = (if has_dot query then query else query @ ''.com'') in
           case whoisxml_check e d w of
             (Inl ex, w1) \<Rightarrow> (Inr (500, ErrorBody ex), w1)
           | (Inr available, w1) \<Rightarrow>
               (case suggestion_loop e max_suggestions
                       (generate_suggestions query max_suggestions) [] w1 of
                  (suggestions, w2) \<Rightarrow> (Inr (200, CheckBody d available suggestions), w2)))))))"

section \<open>The scheduler job\<close>

text \<open>\<^verbatim>\<open>note.notified = True; db.session.commit()\<close>: the update of the row with the
  note's primary key.\<close>

definition commit_notified :: "nat \<Rightarrow> world \<Rightarrow> world" where
  "commit_notified i w =
     w\<lparr>table := map (\<lambda>r. if row_id r = i then r\<lparr>notified := True\<rparr> else r) (table w)\<rparr>"

text \<open>The body of the loop for one pending row.\<close>

definition process_note :: "env \<Rightarrow> notification \<Rightarrow> world \<Rightarrow> world" where
  "process_note e note w =
     (case whoisxml_check e (domain note) w of
        (Inl ex, w1) \<Rightarrow> emit (Print (WhoisFailed ex)) w1
      | (Inr False, w1) \<Rightarrow> w1
      | (Inr True, w1) \<Rightarrow>
          (case send_email e (email note)
                  (''Domain Available: '' @ domain note)
                  (''Good news! The domain '' @ domain note @ '' is now available.'') w1 of
             (Some ex, w2) \<Rightarrow> emit (Print (EmailSendFailed ex)) w2
           | (None, w2) \<Rightarrow> emit (Print (EmailSent (email note))) (commit_notified (row_id note) w2)))"

fun process_pending :: "env \<Rightarrow> notification list \<Rightarrow> world \<Rightarrow> world" where
  "process_pending e [] w = w"
| "process_pending e (note # notes) w = process_pending e notes (process_note e note w)"

definition pending_rows :: "notification list \<Rightarrow> notification list" where
  "pending_rows rows = filter (\<lambda>r. notified r = False) rows"

definition process_notifications :: "env \<Rightarrow> world \<Rightarrow> world" where
  "process_notifications e w = process_pending e (pending_rows (table w)) w"

section \<open>Vocabulary of the properties\<close>

text \<open>The normalisation both handlers apply to the domain they are given, and the one
  \<^verbatim>\<open>/notify\<close> applies to the address.\<close>

definition normalize_domain :: "string \<Rightarrow> string" where
  "normalize_domain s = (let d = py_lower (py_strip s) in if has_dot d then d else d @ ''.com'')"

definition normalize_email :: "string \<Rightarrow> string" where
  "normalize_email s = py_lower (py_strip s)"

text \<open>The value of a field of a request body, with the default the handler gives.\<close>

definition field :: "(string \<times> json) list \<Rightarrow> string \<Rightarrow> json \<Rightarrow> json" where
  "field kvs k d = (case map_of kvs k of Some v \<Rightarrow> v | None \<Rightarrow> d)"

text \<open>The active rows of a (domain, email) pair.\<close>

definition active_rows :: "string \<Rightarrow> string \<Rightarrow> notification list \<Rightarrow> notification list" where
  "active_rows d a rows = filter (\<lambda>r. domain r = d \<and> email r = a \<and> \<not> notified r) rows"

text \<open>The mail the scheduler job sends for a row.\<close>

definition notification_mail :: "notification \<Rightarrow> mail" where
  "notification_mail note =
     \<lparr>mail_to = email note,
      mail_subject = ''Domain Available: '' @ domain note,
      mail_body = ''Good news! The domain '' @ domain note @ '' is now available.''\<rparr>"

text \<open>The lookup of a row's domain issued at time \<open>t\<close> returns available; the mail of the
  row sent at time \<open>t\<close> is accepted.\<close>

definition lookup_available :: "env \<Rightarrow> nat \<Rightarrow> notification \<Rightarrow> bool" where
  "lookup_available e t note = (whoisxml_result (http_get e t (domain note)) = Inr True)"

definition send_succeeded :: "env \<Rightarrow> nat \<Rightarrow> notification \<Rightarrow> bool" where
  "send_succeeded e t note = (send_outcome e t (notification_mail note) = None)"

text \<open>The lookups and the sends of a trace, in the order they were attempted.\<close>

fun lookups_of :: "event list \<Rightarrow> string list" where
  "lookups_of [] = []"
| "lookups_of (WhoisRequest d # evs) = d # lookups_of evs"
| "lookups_of (SendEmail m # evs) = lookups_of evs"
| "lookups_of (Print l # evs) = lookups_of evs"

fun sends_of :: "event list \<Rightarrow> mail list" where
  "sends_of [] = []"
| "sends_of (WhoisRequest d # evs) = sends_of evs"
| "sends_of (SendEmail m # evs) = m # sends_of evs"
| "sends_of (Print l # evs) = sends_of evs"

text \<open>What one round of the scheduler's loop does to the outside for a row, at time
  \<open>t\<close>.\<close>

definition note_events :: "env \<Rightarrow> nat \<Rightarrow> notification \<Rightarrow> event list" where
  "note_events e t note =
     WhoisRequest (domain note) #
     (case whoisxml_result (http_get e t (domain note)) of
        Inl ex \<Rightarrow> [Print (WhoisFailed ex)]
      | Inr False \<Rightarrow> []
      | Inr True \<Rightarrow>
          SendEmail (notification_mail note) #
          (case send_outcome e (Suc t) (notification_mail note) of
             Some ex \<Rightarrow> [Print (EmailSendFailed ex)]
           | None \<Rightarrow> [Print (EmailSent (email note))]))"

text \<open>The states of the system: it starts with an empty table, and every request and
  every run of the scheduler job, whatever the outside answers, leads from a state to the
  next.\<close>

definition initial_world :: world where
  "initial_world = \<lparr>table = [], requests_made = 0, trace = []\<rparr>"

inductive reachable :: "world \<Rightarrow> bool" where
  start: "reachable initial_world"
| after_notify: "reachable w \<Longrightarrow> reachable (snd (notify data now w))"
| after_check: "reachable w \<Longrightarrow> reachable (snd (check_domain e data w))"
| after_poll: "reachable w \<Longrightarrow> reachable (process_notifications e w)"

text \<open>Two outsides for the examples. In the first every domain is available and every
  mail is accepted. In the second the lookup of \<^verbatim>\<open>down.com\<close> fails, \<^verbatim>\<open>taken.com\<close>
  is registered, every other domain is available, and the relay refuses the mail to
  \<^verbatim>\<open>bounce@x.org\<close>.\<close>

definition available_body :: json where
  "available_body = JObject [(''DomainInfo'', JObject [(''domainAvailability'', JString ''AVAILABLE'')])]"

definition unavailable_body :: json where
  "unavailable_body = JObject [(''DomainInfo'', JObject [(''domainAvailability'', JString ''UNAVAILABLE'')])]"

definition friendly_env :: env where
  "friendly_env =
     \<lparr>http_get = (\<lambda>t d. Response 200 (Some available_body)),
      send_outcome = (\<lambda>t m. None),
      int_of_str = (\<lambda>s. None)\<rparr>"

definition flaky_env :: env where
  "flaky_env =
     \<lparr>http_get = (\<lambda>t d.
        if d = ''down.com'' then RequestRaises ''timed out''
        else if d = ''taken.com'' then Response 200 (Some unavailable_body)
        else Response 200 (Some available_body)),
      send_outcome = (\<lambda>t m.
        if mail_to m = ''bounce@x.org'' then Some (SMTPException ''recipient refused'') else None),
      int_of_str = (\<lambda>s. None)\<rparr>"

definition row :: "nat \<Rightarrow> string \<Rightarrow> string \<Rightarrow> bool \<Rightarrow> notification" where
  "row i d a n = \<lparr>row_id = i, domain = d, email = a, notified = n, created_at = 0\<rparr>"

text \<open>A registration request for the examples.\<close>

definition foo_request :: json where
  "foo_request = JObject [(''domain'', JString '' Foo''), (''email'', JString ''A@x.org'')]"

text \<open>A table with two active rows for the pair of that request.\<close>

definition dup_world :: world where
  "dup_world =
     \<lparr>table =
        [row 11 ''foo.com'' ''a@x.org'' False,
         row 12 ''foo.com'' ''a@x.org'' False],
      requests_made = 0, trace = []\<rparr>"

text \<open>A table for the examples: four pending rows around a row that is already
  notified.\<close>

definition demo_world :: world where
  "demo_world =
     \<lparr>table =
        [row 11 ''down.com'' ''a@x.org'' False,
         row 15 ''old.com'' ''a@x.org'' True,
         row 12 ''taken.com'' ''a@x.org'' False,
         row 13 ''free.com'' ''bounce@x.org'' False,
         row 14 ''free.com'' ''ok@x.org'' False],
      requests_made = 0, trace = []\<rparr>"

section \<open>Properties of the availability check\<close>

lemma lower_upper_char: "lower_char (upper_char c) = lower_char c"
  by (simp add: lower_char_def upper_char_def ascii_lowercase_def ascii_uppercase_def)

lemma upper_lower_char: "upper_char (lower_char c) = upper_char c"
  by (simp add: lower_char_def upper_char_def ascii_lowercase_def ascii_uppercase_def)

lemma py_lower_ascii_upper: "py_lower (ascii_upper s) = py_lower s"
  by (simp add: py_lower_def ascii_upper_def lower_upper_char)

lemma ascii_upper_py_lower: "ascii_upper (py_lower s) = ascii_upper s"
  by (simp add: py_lower_def ascii_upper_def upper_lower_char)

lemma ascii_upper_eq_iff: "ascii_upper s = ascii_upper t \<longleftrightarrow> py_lower s = py_lower t"
proof
  assume "ascii_upper s = ascii_upper t"
  then have "py_lower (ascii_upper s) = py_lower (ascii_upper t)" by simp
  then show "py_lower s = py_lower t" by (simp only: py_lower_ascii_upper)
next
  assume "py_lower s = py_lower t"
  then have "ascii_upper (py_lower s) = ascii_upper (py_lower t)" by simp
  then show "ascii_upper s = ascii_upper t" by (simp only: ascii_upper_py_lower)
qed

lemma ascii_upper_AVAILABLE: "ascii_upper ''AVAILABLE'' = ''AVAILABLE''"
  by (simp add: ascii_upper_def upper_char_def ascii_lowercase_def ascii_uppercase_def)

lemma ascii_upper_is_AVAILABLE:
  "ascii_upper s = ''AVAILABLE'' \<longleftrightarrow> equal_ignoring_case s ''AVAILABLE''"
  using ascii_upper_eq_iff [of s "''AVAILABLE''"]
  by (simp only: ascii_upper_AVAILABLE equal_ignoring_case_def)

text \<open>On ASCII text \<^verbatim>\<open>upper\<close> moves the 26 letters only.\<close>

lemma upper2_ascii: "(of_char c :: nat) < 128 \<Longrightarrow> upper2 c d = None"
  by (auto simp: upper2_def)

lemma upper3_ascii: "(of_char c :: nat) < 128 \<Longrightarrow> upper3 c d e = None"
  by (auto simp: upper3_def)

lemma py_upper_ascii: "is_ascii s \<Longrightarrow> py_upper s = ascii_upper s"
  by (induction s rule: py_upper.induct)
    (simp_all add: is_ascii_def ascii_upper_def upper2_ascii upper3_ascii)

lemma lower_char_ascii: "(of_char (lower_char c) :: nat) < 128 \<Longrightarrow> (of_char c :: nat) < 128"
  by (auto simp: lower_char_def ascii_lowercase_def ascii_uppercase_def split: if_splits)

lemma is_ascii_py_lower: "is_ascii (py_lower s) \<Longrightarrow> is_ascii s"
  by (induction s) (auto simp: is_ascii_def py_lower_def lower_char_ascii)

lemma available_is_ascii: "equal_ignoring_case s ''AVAILABLE'' \<Longrightarrow> is_ascii s"
proof -
  assume "equal_ignoring_case s ''AVAILABLE''"
  then have "py_lower s = ''available''"
    by (simp add: equal_ignoring_case_def py_lower_def lower_char_def ascii_lowercase_def
        ascii_uppercase_def)
  moreover have "is_ascii ''available''" by (simp add: is_ascii_def)
  ultimately show ?thesis using is_ascii_py_lower [of s] by simp
qed

lemma upper_is_AVAILABLE_ascii:
  "is_ascii s \<Longrightarrow> py_upper s = ''AVAILABLE'' \<longleftrightarrow> equal_ignoring_case s ''AVAILABLE''"
  by (simp add: py_upper_ascii ascii_upper_is_AVAILABLE)

lemma case_variant_upper: "equal_ignoring_case s ''AVAILABLE'' \<Longrightarrow> py_upper s = ''AVAILABLE''"
  using available_is_ascii [of s] upper_is_AVAILABLE_ascii [of s] by blast

lemma dotless_i_upper:
  "py_upper (''AVA'' @ [CHR 0xC4, CHR 0xB1] @ ''LABLE'') = ''AVAILABLE''"
  "\<not> equal_ignoring_case (''AVA'' @ [CHR 0xC4, CHR 0xB1] @ ''LABLE'') ''AVAILABLE''"
  by (simp_all add: upper2_def upper3_def upper_char_def ascii_lowercase_def ascii_uppercase_def
      equal_ignoring_case_def py_lower_def lower_char_def)

lemma upper_available_nonempty: "py_upper s = ''AVAILABLE'' \<Longrightarrow> s \<noteq> []"
  by auto

lemma whoisxml_result_string:
  "whois_status data = Inr (JString s) \<Longrightarrow>
   whoisxml_result (Response code (Some data)) = Inr (py_upper s = ''AVAILABLE'')"
  using upper_available_nonempty [of s]
  by (auto simp: whoisxml_result_def)

lemma whoisxml_result_falsy:
  "whois_status data = Inr v \<Longrightarrow> \<not> truthy v \<Longrightarrow>
   whoisxml_result (Response code (Some data)) = Inr False"
  by (simp add: whoisxml_result_def)

lemma whoisxml_result_truthy_other:
  "whois_status data = Inr v \<Longrightarrow> truthy v \<Longrightarrow> \<forall>s. v \<noteq> JString s \<Longrightarrow>
   whoisxml_result (Response code (Some data)) = Inl (RuntimeError_WHOIS AttributeError)"
  by (cases v) (simp_all add: whoisxml_result_def)

lemma whoisxml_result_status_error:
  "whois_status data = Inl ex \<Longrightarrow>
   whoisxml_result (Response code (Some data)) = Inl (RuntimeError_WHOIS ex)"
  by (simp add: whoisxml_result_def)

lemma map_of_key_in: "k \<in> set (map fst kvs) \<longleftrightarrow> map_of kvs k \<noteq> None"
  by (simp add: map_of_eq_None_iff)

lemma whois_status_nested:
  "map_of kvs ''DomainInfo'' = Some info \<Longrightarrow>
   whois_status (JObject kvs) = py_get info ''domainAvailability'' JNull"
  by (simp add: whois_status_def map_of_key_in del: set_map)

lemma whois_status_flat:
  "map_of kvs ''DomainInfo'' = None \<Longrightarrow>
   whois_status (JObject kvs) =
     Inr (case map_of kvs ''domainAvailability'' of Some v \<Rightarrow> v | None \<Rightarrow> JNull)"
  by (simp add: whois_status_def map_of_key_in del: set_map)

lemma whois_status_not_object:
  "\<forall>kvs. data \<noteq> JObject kvs \<Longrightarrow> \<exists>ex. whois_status data = Inl ex"
  by (cases data) (auto simp: whois_status_def split: sum.splits bool.splits)

lemma whoisxml_result_True_iff:
  "whoisxml_result r = Inr True \<longleftrightarrow>
   (\<exists>code data s. r = Response code (Some data) \<and> whois_status data = Inr (JString s)
      \<and> py_upper s = ''AVAILABLE'')"
proof (cases r)
  case (RequestRaises m)
  then show ?thesis by (simp add: whoisxml_result_def)
next
  case (Response code body)
  show ?thesis
  proof (cases body)
    case None
    with Response show ?thesis by (simp add: whoisxml_result_def)
  next
    case (Some data)
    show ?thesis
    proof (cases "whois_status data")
      case (Inl ex)
      with Response Some show ?thesis by (simp add: whoisxml_result_def)
    next
      case (Inr v)
      show ?thesis
      proof (cases "truthy v")
        case False
        then have "\<And>s. v = JString s \<Longrightarrow> py_upper s \<noteq> ''AVAILABLE''"
          using upper_available_nonempty by auto
        with Response Some Inr False show ?thesis
          by (auto simp: whoisxml_result_def)
      next
        case True
        with Response Some Inr show ?thesis
          by (cases v) (auto simp: whoisxml_result_def)
      qed
    qed
  qed
qed

text \<open>
  Claim C4, as amended. When the body has a \<^verbatim>\<open>DomainInfo\<close> key the status is the field of
  its value: the nested field of a \<^verbatim>\<open>DomainInfo\<close> object (null when the object lacks it,
  with no recourse to the flat field), and an error when the value is not an object. The
  flat top-level field is the status only when the key is absent. The check returns
  available exactly when the status is a string whose upper case is \<^verbatim>\<open>AVAILABLE\<close>: every
  string equal to \<^verbatim>\<open>AVAILABLE\<close> ignoring case is one, and among ASCII strings they are the
  only ones. It returns unavailable for every other string and for every status that is
  not truthy (a missing field, null, false, zero, an empty string, list or object). A truthy
  status that is not a string makes the check raise, as a failing request, an unparsable
  body and a body of another shape do: the error raised wraps the underlying exception.
\<close>

theorem whoisxml_check_amended:
  "(map_of kvs ''DomainInfo'' = Some info \<longrightarrow>
      whois_status (JObject kvs) = py_get info ''domainAvailability'' JNull)
   \<and> (map_of kvs ''DomainInfo'' = Some (JObject inner) \<longrightarrow>
      whois_status (JObject kvs) = Inr (field inner ''domainAvailability'' JNull))
   \<and> (map_of kvs ''DomainInfo'' = Some info \<and> (\<forall>inner. info \<noteq> JObject inner) \<longrightarrow>
      whoisxml_result (Response code (Some (JObject kvs))) = Inl (RuntimeError_WHOIS AttributeError))
   \<and> (map_of kvs ''DomainInfo'' = None \<longrightarrow>
      whois_status (JObject kvs) = Inr (field kvs ''domainAvailability'' JNull))
   \<and> (whoisxml_result r = Inr True \<longleftrightarrow>
        (\<exists>code data s. r = Response code (Some data) \<and> whois_status data = Inr (JString s)
           \<and> py_upper s = ''AVAILABLE''))
   \<and> (equal_ignoring_case s ''AVAILABLE'' \<longrightarrow> py_upper s = ''AVAILABLE'')
   \<and> (is_ascii s \<longrightarrow> (py_upper s = ''AVAILABLE'' \<longleftrightarrow> equal_ignoring_case s ''AVAILABLE''))
   \<and> (whois_status data = Inr (JString s) \<and> py_upper s \<noteq> ''AVAILABLE'' \<longrightarrow>
        whoisxml_result (Response code (Some data)) = Inr False)
   \<and> (whois_status data = Inr v \<and> \<not> truthy v \<longrightarrow>
        whoisxml_result (Response code (Some data)) = Inr False)
   \<and> (whois_status data = Inr v \<and> truthy v \<and> (\<forall>s. v \<noteq> JString s) \<longrightarrow>
        whoisxml_result (Response code (Some data)) = Inl (RuntimeError_WHOIS AttributeError))
   \<and> whoisxml_result (RequestRaises m) = Inl (RuntimeError_WHOIS (RequestException m))
   \<and> whoisxml_result (Response code None) = Inl (RuntimeError_WHOIS JSONDecodeError)
   \<and> (whois_status data = Inl ex \<longrightarrow>
        whoisxml_result (Response code (Some data)) = Inl (RuntimeError_WHOIS ex))
   \<and> ((\<forall>kvs. data \<noteq> JObject kvs) \<longrightarrow> (\<exists>ex. whois_status data = Inl ex))"
proof -
  have nested: "map_of kvs ''DomainInfo'' = Some (JObject inner) \<longrightarrow>
      whois_status (JObject kvs) = Inr (field inner ''domainAvailability'' JNull)"
    using whois_status_nested [of kvs "JObject inner"] by (simp add: field_def)
  have other: "map_of kvs ''DomainInfo'' = Some info \<and> (\<forall>inner. info \<noteq> JObject inner) \<longrightarrow>
      whoisxml_result (Response code (Some (JObject kvs))) = Inl (RuntimeError_WHOIS AttributeError)"
  proof (intro impI, elim conjE)
    assume key: "map_of kvs ''DomainInfo'' = Some info" and shape: "\<forall>inner. info \<noteq> JObject inner"
    from shape have "py_get info ''domainAvailability'' JNull = Inl AttributeError"
      by (cases info) simp_all
    with whois_status_nested [OF key] have "whois_status (JObject kvs) = Inl AttributeError"
      by simp
    then show "whoisxml_result (Response code (Some (JObject kvs)))
        = Inl (RuntimeError_WHOIS AttributeError)"
      by (rule whoisxml_result_status_error)
  qed
  have flat: "map_of kvs ''DomainInfo'' = None \<longrightarrow>
      whois_status (JObject kvs) = Inr (field kvs ''domainAvailability'' JNull)"
    using whois_status_flat [of kvs] by (simp add: field_def)
  have string_case: "whois_status data = Inr (JString s) \<and> py_upper s \<noteq> ''AVAILABLE'' \<longrightarrow>
      whoisxml_result (Response code (Some data)) = Inr False"
    using whoisxml_result_string [of data s code] by simp
  have variants: "equal_ignoring_case s ''AVAILABLE'' \<longrightarrow> py_upper s = ''AVAILABLE''"
    using case_variant_upper [of s] by blast
  have ascii: "is_ascii s \<longrightarrow> (py_upper s = ''AVAILABLE'' \<longleftrightarrow> equal_ignoring_case s ''AVAILABLE'')"
    using upper_is_AVAILABLE_ascii [of s] by blast
  have falsy: "whois_status data = Inr v \<and> \<not> truthy v \<longrightarrow>
        whoisxml_result (Response code (Some data)) = Inr False"
    using whoisxml_result_falsy [of data v code] by blast
  have odd: "whois_status data = Inr v \<and> truthy v \<and> (\<forall>s. v \<noteq> JString s) \<longrightarrow>
        whoisxml_result (Response code (Some data)) = Inl (RuntimeError_WHOIS AttributeError)"
    using whoisxml_result_truthy_other [of data v code] by blast
  have raised: "whoisxml_result (RequestRaises m) = Inl (RuntimeError_WHOIS (RequestException m))"
    and unparsed: "whoisxml_result (Response code None) = Inl (RuntimeError_WHOIS JSONDecodeError)"
    by (simp_all add: whoisxml_result_def)
  have failed: "whois_status data = Inl ex \<longrightarrow>
        whoisxml_result (Response code (Some data)) = Inl (RuntimeError_WHOIS ex)"
    using whoisxml_result_status_error [of data ex code] by blast
  have shape: "(\<forall>kvs. data \<noteq> JObject kvs) \<longrightarrow> (\<exists>ex. whois_status data = Inl ex)"
    using whois_status_not_object [of data] by blast
  have gen: "map_of kvs ''DomainInfo'' = Some info \<longrightarrow>
      whois_status (JObject kvs) = py_get info ''domainAvailability'' JNull"
    using whois_status_nested [of kvs info] by blast
  from gen nested other flat whoisxml_result_True_iff [of r]
    variants ascii string_case falsy odd raised unparsed failed shape
  show ?thesis by (intro conjI) assumption+
qed

text \<open>The theorem at concrete responses: the nested field wins over the flat one, a flat
  field is read when there is no nested object, a missing field is unavailable, and a
  status \<^verbatim>\<open>true\<close> and a list body raise.\<close>

theorem whoisxml_check_amended_witness:
  "whoisxml_result (Response 200 (Some (JObject
      [(''DomainInfo'', JObject [(''domainAvailability'', JString ''Available'')]),
       (''domainAvailability'', JString ''UNAVAILABLE'')]))) = Inr True
   \<and> whoisxml_result (Response 200 (Some (JObject
      [(''domainAvailability'', JString ''UNAVAILABLE'')]))) = Inr False
   \<and> whoisxml_result (Response 200 (Some (JObject [(''DomainInfo'', JObject [])]))) = Inr False
   \<and> whoisxml_result (Response 200 (Some (JObject [(''domainAvailability'', JBool True)])))
       = Inl (RuntimeError_WHOIS AttributeError)
   \<and> whoisxml_result (Response 200 (Some (JArray []))) = Inl (RuntimeError_WHOIS AttributeError)"
proof -
  let ?nested = "[(''DomainInfo'', JObject [(''domainAvailability'', JString ''Available'')]),
       (''domainAvailability'', JString ''UNAVAILABLE'')]"
  let ?flat = "[(''domainAvailability'', JString ''UNAVAILABLE'')]"
  let ?empty = "[(''DomainInfo'', JObject [])]"
  let ?odd = "[(''domainAvailability'', JBool True)]"
  have s1: "whois_status (JObject ?nested) = Inr (JString ''Available'')"
    using whoisxml_check_amended
      [where kvs = ?nested and inner = "[(''domainAvailability'', JString ''Available'')]"]
    by (simp add: field_def)
  have e1: "equal_ignoring_case ''Available'' ''AVAILABLE''"
    by (simp add: equal_ignoring_case_def py_lower_def lower_char_def ascii_lowercase_def
        ascii_uppercase_def)
  have u1: "py_upper ''Available'' = ''AVAILABLE''"
    using whoisxml_check_amended [where s = "''Available''"] e1 by blast
  have r1: "whoisxml_result (Response 200 (Some (JObject ?nested))) = Inr True"
    using whoisxml_check_amended [where r = "Response 200 (Some (JObject ?nested))"] s1 u1
    by blast
  have s2: "whois_status (JObject ?flat) = Inr (JString ''UNAVAILABLE'')"
    using whoisxml_check_amended [where kvs = ?flat] by (simp add: field_def)
  have a2: "is_ascii ''UNAVAILABLE''"
    by (simp add: is_ascii_def)
  have e2: "\<not> equal_ignoring_case ''UNAVAILABLE'' ''AVAILABLE''"
    by (simp add: equal_ignoring_case_def py_lower_def)
  have u2: "py_upper ''UNAVAILABLE'' \<noteq> ''AVAILABLE''"
    using whoisxml_check_amended [where s = "''UNAVAILABLE''"] a2 e2 by blast
  have r2: "whoisxml_result (Response 200 (Some (JObject ?flat))) = Inr False"
    using whoisxml_check_amended
      [where data = "JObject ?flat" and s = "''UNAVAILABLE''" and code = 200] s2 u2
    by blast
  have s3: "whois_status (JObject ?empty) = Inr JNull"
    using whoisxml_check_amended [where kvs = ?empty and inner = "[]"] by (simp add: field_def)
  have r3: "whoisxml_result (Response 200 (Some (JObject ?empty))) = Inr False"
    using whoisxml_check_amended [where data = "JObject ?empty" and code = 200 and v = JNull] s3
    by simp
  have s4: "whois_status (JObject ?odd) = Inr (JBool True)"
    using whoisxml_check_amended [where kvs = ?odd] by (simp add: field_def)
  have r4: "whoisxml_result (Response 200 (Some (JObject ?odd))) = Inl (RuntimeError_WHOIS AttributeError)"
    using whoisxml_check_amended [where data = "JObject ?odd" and code = 200 and v = "JBool True"] s4
    by simp
  have s5: "whois_status (JArray []) = Inl AttributeError"
    by (simp add: whois_status_def)
  have r5: "whoisxml_result (Response 200 (Some (JArray []))) = Inl (RuntimeError_WHOIS AttributeError)"
    using whoisxml_check_amended [where data = "JArray []" and code = 200 and ex = AttributeError] s5
    by simp
  from r1 r2 r3 r4 r5 show ?thesis by simp
qed

text \<open>
  Claim C4 as stated fails at four bodies. The status 1 is a value other than
  \<^verbatim>\<open>AVAILABLE\<close>, and the check raises where the claim has it return unavailable. With an
  empty \<^verbatim>\<open>DomainInfo\<close> object beside a flat status \<^verbatim>\<open>AVAILABLE\<close> the check does not fall
  back to the flat field and returns unavailable. With \<^verbatim>\<open>DomainInfo\<close> null beside the same
  flat status there is no \<^verbatim>\<open>DomainInfo\<close> object, and the check raises where it would fall
  back. The status \<^verbatim>\<open>AVA\<close>, dotless i, \<^verbatim>\<open>LABLE\<close> is not \<^verbatim>\<open>AVAILABLE\<close> in another case,
  and the check returns available.
\<close>

theorem whoisxml_check_other_value_counterexample:
  "whois_status (JObject [(''domainAvailability'', JInt 1)]) = Inr (JInt 1)
   \<and> whoisxml_result (Response 200 (Some (JObject [(''domainAvailability'', JInt 1)])))
       = Inl (RuntimeError_WHOIS AttributeError)
   \<and> whoisxml_result (Response 200 (Some (JObject [(''domainAvailability'', JInt 1)])))
       \<noteq> Inr False
   \<and> whoisxml_result (Response 200 (Some (JObject
        [(''DomainInfo'', JObject []), (''domainAvailability'', JString ''AVAILABLE'')])))
       = Inr False
   \<and> whoisxml_result (Response 200 (Some (JObject
        [(''DomainInfo'', JNull), (''domainAvailability'', JString ''AVAILABLE'')])))
       = Inl (RuntimeError_WHOIS AttributeError)
   \<and> whoisxml_result (Response 200 (Some (JObject
        [(''domainAvailability'', JString (''AVA'' @ [CHR 0xC4, CHR 0xB1] @ ''LABLE''))])))
       = Inr True
   \<and> \<not> equal_ignoring_case (''AVA'' @ [CHR 0xC4, CHR 0xB1] @ ''LABLE'') ''AVAILABLE''"
proof -
  have one: "whois_status (JObject [(''domainAvailability'', JInt 1)]) = Inr (JInt 1)
   \<and> whoisxml_result (Response 200 (Some (JObject [(''domainAvailability'', JInt 1)])))
       = Inl (RuntimeError_WHOIS AttributeError)
   \<and> whoisxml_result (Response 200 (Some (JObject [(''domainAvailability'', JInt 1)])))
       \<noteq> Inr False"
    by (simp add: whoisxml_result_def whois_status_def)
  have empty: "whoisxml_result (Response 200 (Some (JObject
        [(''DomainInfo'', JObject []), (''domainAvailability'', JString ''AVAILABLE'')])))
       = Inr False"
    by (simp add: whoisxml_result_def whois_status_def)
  have null: "whoisxml_result (Response 200 (Some (JObject
        [(''DomainInfo'', JNull), (''domainAvailability'', JString ''AVAILABLE'')])))
       = Inl (RuntimeError_WHOIS AttributeError)"
    by (simp add: whoisxml_result_def whois_status_def)
  have st: "whois_status (JObject
        [(''domainAvailability'', JString (''AVA'' @ [CHR 0xC4, CHR 0xB1] @ ''LABLE''))])
       = Inr (JString (''AVA'' @ [CHR 0xC4, CHR 0xB1] @ ''LABLE''))"
    by (simp add: whois_status_def)
  have dotless: "whoisxml_result (Response 200 (Some (JObject
        [(''domainAvailability'', JString (''AVA'' @ [CHR 0xC4, CHR 0xB1] @ ''LABLE''))])))
       = Inr True"
    using whoisxml_result_string [OF st, of 200] by (simp only: dotless_i_upper(1)) simp
  from one empty null dotless dotless_i_upper(2) show ?thesis by blast
qed



section \<open>Properties of the suggestion generator\<close>

lemma fold_snoc_map: "fold (\<lambda>x c. c @ [f x]) xs acc = acc @ map f xs"
  by (induction xs arbitrary: acc) simp_all

lemma fold_snoc_id: "fold (\<lambda>x c. c @ [x]) xs acc = acc @ xs"
  by (induction xs arbitrary: acc) simp_all

lemma candidates_of_pool: "candidates_of label = candidate_pool label"
  by (simp add: candidates_of_def candidate_pool_def fold_snoc_map fold_snoc_id)

lemma set_keep_first: "set (keep_first xs) = set xs"
  by (induction xs rule: keep_first.induct) auto

lemma distinct_keep_first: "distinct (keep_first xs)"
  by (induction xs rule: keep_first.induct) (simp_all add: set_keep_first)

lemma subseq_keep_first: "subseq (keep_first xs) xs"
proof (induction xs rule: keep_first.induct)
  case 1
  show ?case by simp
next
  case (2 x xs)
  have "subseq (filter (\<lambda>y. y \<noteq> x) xs) xs" by simp
  with 2 have "subseq (keep_first (filter (\<lambda>y. y \<noteq> x) xs)) xs"
    by (rule subseq_order.trans)
  then show ?case by simp
qed

lemma fold_fromkeys:
  "fold (\<lambda>x keys. if x \<in> set keys then keys else keys @ [x]) xs acc
     = acc @ keep_first (filter (\<lambda>x. x \<notin> set acc) xs)"
proof (induction xs arbitrary: acc)
  case Nil
  show ?case by simp
next
  case (Cons x xs)
  show ?case
  proof (cases "x \<in> set acc")
    case True
    with Cons show ?thesis by simp
  next
    case False
    have "filter (\<lambda>y. y \<notin> set (acc @ [x])) xs
            = filter (\<lambda>y. y \<noteq> x) (filter (\<lambda>y. y \<notin> set acc) xs)"
      by (induction xs) auto
    with False Cons [of "acc @ [x]"] show ?thesis by simp
  qed
qed

lemma dict_fromkeys_keep_first: "dict_fromkeys xs = keep_first xs"
  by (simp add: dict_fromkeys_def fold_fromkeys)

lemma py_split_nonempty: "py_split sep s \<noteq> []"
  by (induction s) (auto split: list.splits)

lemma hd_py_split: "hd (py_split sep s) = takeWhile (\<lambda>c. c \<noteq> sep) s"
  using py_split_nonempty [of sep]
  by (induction s) (auto split: list.splits)

lemma label_of_takeWhile: "label_of q = takeWhile (\<lambda>c. c \<noteq> CHR ''.'') q"
proof (cases "has_dot q")
  case True
  then show ?thesis by (simp add: label_of_def hd_py_split)
next
  case False
  then have "\<forall>c \<in> set q. c \<noteq> CHR ''.''" by (auto simp: has_dot_def)
  then have "takeWhile (\<lambda>c. c \<noteq> CHR ''.'') q = q" by (rule takeWhile_eq_all_conv [THEN iffD2])
  with False show ?thesis by (simp only: label_of_def if_False)
qed

lemma generate_suggestions_take:
  "0 \<le> n \<Longrightarrow> generate_suggestions q n
     = take (nat (3 * n)) (keep_first (candidate_pool (takeWhile (\<lambda>c. c \<noteq> CHR ''.'') (py_lower q))))"
  by (simp add: generate_suggestions_def py_slice_to_def dict_fromkeys_keep_first
      candidates_of_pool label_of_takeWhile mult.commute)

text \<open>
  Claim C5. For every query and every positive cap \<open>n\<close>, \<^verbatim>\<open>generate_suggestions\<close> returns
  at most \<open>3 * n\<close> strings without duplicates: the first \<open>3 * n\<close> entries of the pool of
  candidates (the TLD variants, then the prefix variants, the suffix variants, the chained
  two-part suffixes and the keyword variants of the base label, in that order) after the
  removal of duplicates that keeps the first occurrence of every string. The result is a
  subsequence of the pool, so the order of the source lists is kept.
\<close>

theorem generate_suggestions_bounded_distinct_ordered:
  assumes "0 < n"
  shows "length (generate_suggestions q n) \<le> nat (3 * n)
    \<and> distinct (generate_suggestions q n)
    \<and> generate_suggestions q n
        = take (nat (3 * n)) (keep_first (candidate_pool (takeWhile (\<lambda>c. c \<noteq> CHR ''.'') (py_lower q))))
    \<and> subseq (generate_suggestions q n) (candidate_pool (takeWhile (\<lambda>c. c \<noteq> CHR ''.'') (py_lower q)))"
proof -
  let ?pool = "candidate_pool (takeWhile (\<lambda>c. c \<noteq> CHR ''.'') (py_lower q))"
  have eq: "generate_suggestions q n = take (nat (3 * n)) (keep_first ?pool)"
    using assms by (simp add: generate_suggestions_take)
  have len: "length (generate_suggestions q n) \<le> nat (3 * n)"
    by (simp add: eq)
  have dist: "distinct (generate_suggestions q n)"
    by (simp add: eq distinct_keep_first)
  have "subseq (take (nat (3 * n)) (keep_first ?pool)) (keep_first ?pool)"
    by (rule prefix_imp_subseq) (rule take_is_prefix)
  then have sub: "subseq (generate_suggestions q n) ?pool"
    unfolding eq using subseq_keep_first [of ?pool] by (rule subseq_order.trans)
  from len dist eq sub show ?thesis by simp
qed

text \<open>With the cap 2 the query \<^verbatim>\<open>Foo.io\<close> gives the first six TLD variants of
  \<^verbatim>\<open>foo\<close>; the pool of a label has 47 entries, three of them duplicates.\<close>

theorem generate_suggestions_bounded_distinct_ordered_witness:
  "(0::int) < 2
   \<and> generate_suggestions ''Foo.io'' 2
        = [''foo.com'', ''foo.net'', ''foo.org'', ''foo.io'', ''foo.co'', ''foo.ai'']
   \<and> length (generate_suggestions ''Foo.io'' 2) \<le> 6
   \<and> distinct (generate_suggestions ''Foo.io'' 2)
   \<and> length (candidate_pool ''a'') = 47
   \<and> length (generate_suggestions ''a'' 16) = 44
   \<and> distinct (generate_suggestions ''a'' 16)"
proof -
  have pos: "(0::int) < 2" and pos16: "(0::int) < 16" by simp_all
  have v: "generate_suggestions ''Foo.io'' 2
        = [''foo.com'', ''foo.net'', ''foo.org'', ''foo.io'', ''foo.co'', ''foo.ai'']"
    by code_simp
  have p: "length (candidate_pool ''a'') = 47"
    by (simp add: candidate_pool_def COMMON_TLDS_def prefixes_def suffixes_def
        double_suffixes_def variations_def)
  have l: "length (generate_suggestions ''a'' 16) = 44"
    by code_simp
  note t2 = generate_suggestions_bounded_distinct_ordered [OF pos, of "''Foo.io''"]
  note t16 = generate_suggestions_bounded_distinct_ordered [OF pos16, of "''a''"]
  from t2 have "length (generate_suggestions ''Foo.io'' 2) \<le> nat (3 * 2)" by blast
  then have l2: "length (generate_suggestions ''Foo.io'' 2) \<le> 6" by simp
  from t2 have d2: "distinct (generate_suggestions ''Foo.io'' 2)" by blast
  from t16 have d16: "distinct (generate_suggestions ''a'' 16)" by blast
  from pos v l2 d2 p l d16 show ?thesis by blast
qed

section \<open>Properties of the scheduler job\<close>

lemma process_note_requests_made:
  "requests_made (process_note e note w) = Suc (requests_made w)"
  by (simp add: process_note_def whoisxml_check_def send_email_def emit_def commit_notified_def
      Let_def split: sum.splits bool.splits option.splits)

lemma process_note_table:
  "table (process_note e note w) =
     (if lookup_available e (requests_made w) note \<and> send_succeeded e (Suc (requests_made w)) note
      then map (\<lambda>r. if row_id r = row_id note then r\<lparr>notified := True\<rparr> else r) (table w)
      else table w)"
  by (auto simp: process_note_def whoisxml_check_def send_email_def emit_def commit_notified_def
      lookup_available_def send_succeeded_def notification_mail_def Let_def
      split: sum.splits bool.splits option.splits)

lemma process_note_trace:
  "trace (process_note e note w) = trace w @ note_events e (requests_made w) note"
  by (auto simp: process_note_def whoisxml_check_def send_email_def emit_def commit_notified_def
      note_events_def notification_mail_def Let_def
      split: sum.splits bool.splits option.splits)

text \<open>The rows a run of the loop over \<open>ns\<close> marks: those whose key is the key of a
  note whose lookup and send both succeeded in its round.\<close>

lemma process_pending_table:
  "table (process_pending e ns w) =
     map (\<lambda>r. if (\<exists>j < length ns. row_id (ns ! j) = row_id r
                    \<and> lookup_available e (requests_made w + j) (ns ! j)
                    \<and> send_succeeded e (Suc (requests_made w + j)) (ns ! j))
               then r\<lparr>notified := True\<rparr> else r) (table w)"
proof (induction ns arbitrary: w)
  case Nil
  show ?case by simp
next
  case (Cons n rest)
  let ?ok = "lookup_available e (requests_made w) n \<and> send_succeeded e (Suc (requests_made w)) n"
  show ?case
  proof (cases ?ok)
    case True
    then show ?thesis
      by (simp add: Cons process_note_requests_made process_note_table Ex_less_Suc2 o_def
          cong: if_cong) (auto intro!: map_cong)
  next
    case False
    then show ?thesis
      by (simp add: Cons process_note_requests_made process_note_table Ex_less_Suc2
          cong: if_cong) (auto intro!: map_cong)
  qed
qed

lemma process_pending_requests_made:
  "requests_made (process_pending e ns w) = requests_made w + length ns"
  by (induction ns arbitrary: w) (simp_all add: process_note_requests_made)

lemma process_pending_trace:
  "trace (process_pending e ns w) =
     trace w @ concat (map (\<lambda>j. note_events e (requests_made w + j) (ns ! j)) [0..<length ns])"
proof (induction ns arbitrary: w)
  case Nil
  show ?case by simp
next
  case (Cons n rest)
  have "map (\<lambda>j. note_events e (requests_made w + j) ((n # rest) ! j)) [0..<length (n # rest)]
        = note_events e (requests_made w) n
          # map (\<lambda>j. note_events e (Suc (requests_made w) + j) (rest ! j)) [0..<length rest]"
    by (simp add: upt_conv_Cons map_Suc_upt [symmetric] del: upt_Suc)
  then show ?case
    by (simp add: Cons process_note_requests_made process_note_trace del: upt_Suc)
qed

lemma notified_update_same: "r\<lparr>notified := notified r\<rparr> = r"
  by simp

lemma mark_notified_idem: "notified r \<Longrightarrow> r\<lparr>notified := True\<rparr> = r"
  by (cases r) simp

lemma find_by_id_map:
  assumes "distinct (map row_id rows)" and "x \<in> set rows" and "\<And>r. row_id (F r) = row_id r"
  shows "find (\<lambda>r. row_id r = row_id x) (map F rows) = Some (F x)"
  using assms(1,2)
proof (induction rows)
  case Nil
  then show ?case by simp
next
  case (Cons r rows)
  then show ?case by (auto simp: assms(3))
qed

lemma distinct_pending_ids:
  "distinct (map row_id rows) \<Longrightarrow> distinct (map row_id (pending_rows rows))"
  by (simp add: pending_rows_def distinct_map_filter)

lemma pending_row_facts:
  "i < length (pending_rows rows) \<Longrightarrow>
   pending_rows rows ! i \<in> set rows \<and> \<not> notified (pending_rows rows ! i)"
  using nth_mem [of i "pending_rows rows"] by (auto simp: pending_rows_def)

lemma same_id_same_index:
  assumes "distinct (map row_id ns)" and "i < length ns" and "j < length ns"
    and "row_id (ns ! j) = row_id (ns ! i)"
  shows "j = i"
  using nth_eq_iff_index_eq [OF assms(1), of j i] assms(2,3,4) by simp

lemma map_over_indices: "map (\<lambda>j. f (xs ! j)) [0..<length xs] = map f xs"
  by (rule nth_equalityI) simp_all

lemma lookups_of_append: "lookups_of (xs @ ys) = lookups_of xs @ lookups_of ys"
  by (induction xs rule: lookups_of.induct) simp_all

lemma sends_of_append: "sends_of (xs @ ys) = sends_of xs @ sends_of ys"
  by (induction xs rule: sends_of.induct) simp_all

lemma lookups_of_note_events: "lookups_of (note_events e t n) = [domain n]"
  by (simp add: note_events_def split: sum.splits bool.splits option.splits)

lemma sends_of_note_events:
  "sends_of (note_events e t n) = (if lookup_available e t n then [notification_mail n] else [])"
  by (simp add: note_events_def lookup_available_def split: sum.splits bool.splits option.splits)

lemma lookups_of_rounds:
  "lookups_of (concat (map (\<lambda>j. note_events e (t + j) (ns ! j)) js)) = map (\<lambda>j. domain (ns ! j)) js"
  by (induction js) (simp_all add: lookups_of_append lookups_of_note_events)

lemma sends_of_rounds:
  "sends_of (concat (map (\<lambda>j. note_events e (t + j) (ns ! j)) js))
     = map (\<lambda>j. notification_mail (ns ! j)) (filter (\<lambda>j. lookup_available e (t + j) (ns ! j)) js)"
  by (induction js) (simp_all add: sends_of_append sends_of_note_events)

lemma demo_pending:
  "pending_rows (table demo_world) =
     [row 11 ''down.com'' ''a@x.org'' False, row 12 ''taken.com'' ''a@x.org'' False,
      row 13 ''free.com'' ''bounce@x.org'' False, row 14 ''free.com'' ''ok@x.org'' False]"
  by (simp add: demo_world_def pending_rows_def row_def)

text \<open>
  Claim C1. Let the keys of the table be distinct, as a primary key is. For the \<open>i\<close>-th
  row pending at the start of a cycle, the row of its key after the cycle is the same row
  with the flag \<open>notified\<close> set exactly when the lookup of its domain (the \<open>i\<close>-th request of
  the cycle) returned available and the send that followed succeeded: when the lookup
  returns unavailable or raises, or the send fails, the row is unchanged. A row that is
  already notified is unchanged, so the flag never goes from true back to false, and the
  cycle neither adds nor removes a row.
\<close>

theorem poll_cycle_marks_exactly_the_served:
  assumes ids: "distinct (map row_id (table w))"
  shows "(\<forall>i < length (pending_rows (table w)).
            find (\<lambda>r. row_id r = row_id (pending_rows (table w) ! i))
                 (table (process_notifications e w))
            = Some ((pending_rows (table w) ! i)
                \<lparr>notified := lookup_available e (requests_made w + i) (pending_rows (table w) ! i)
                      \<and> send_succeeded e (Suc (requests_made w + i)) (pending_rows (table w) ! i)\<rparr>))
       \<and> (\<forall>r \<in> set (table w). notified r \<longrightarrow>
            find (\<lambda>x. row_id x = row_id r) (table (process_notifications e w)) = Some r)
       \<and> map row_id (table (process_notifications e w)) = map row_id (table w)"
proof -
  let ?P = "pending_rows (table w)"
  let ?ok = "\<lambda>j. lookup_available e (requests_made w + j) (?P ! j)
                \<and> send_succeeded e (Suc (requests_made w + j)) (?P ! j)"
  let ?F = "\<lambda>r. if (\<exists>j < length ?P. row_id (?P ! j) = row_id r \<and> ?ok j)
                 then r\<lparr>notified := True\<rparr> else r"
  have tab: "table (process_notifications e w) = map ?F (table w)"
    by (simp add: process_notifications_def process_pending_table)
  have keep_id: "row_id (?F r) = row_id r" for r by simp
  have pending: "find (\<lambda>r. row_id r = row_id (?P ! i)) (table (process_notifications e w))
            = Some ((?P ! i)\<lparr>notified := ?ok i\<rparr>)" if i: "i < length ?P" for i
  proof -
    from i have mem: "?P ! i \<in> set (table w)" and act: "\<not> notified (?P ! i)"
      using pending_row_facts [of i "table w"] by simp_all
    define b where "b = ?ok i"
    have "(\<exists>j < length ?P. row_id (?P ! j) = row_id (?P ! i) \<and> ?ok j) = b"
      unfolding b_def using same_id_same_index [OF distinct_pending_ids [OF ids] i] i by blast
    then have "?F (?P ! i) = (if b then (?P ! i)\<lparr>notified := True\<rparr> else ?P ! i)"
      by (simp only:)
    also have "\<dots> = (?P ! i)\<lparr>notified := b\<rparr>"
    proof (cases b)
      case True
      then show ?thesis by (simp only: if_True)
    next
      case False
      with act have "b = notified (?P ! i)" by simp
      then have "(?P ! i)\<lparr>notified := b\<rparr> = ?P ! i"
        by (simp only: notified_update_same)
      with False show ?thesis by (simp only: if_False)
    qed
    finally have "?F (?P ! i) = (?P ! i)\<lparr>notified := ?ok i\<rparr>"
      by (simp only: b_def)
    with find_by_id_map [OF ids mem keep_id] tab show ?thesis by simp
  qed
  have settled: "find (\<lambda>x. row_id x = row_id r) (table (process_notifications e w)) = Some r"
    if "r \<in> set (table w)" and "notified r" for r
  proof -
    from that(2) have "r\<lparr>notified := True\<rparr> = r"
      by (rule mark_notified_idem)
    then have "?F r = r" by (simp only: if_cancel)
    with find_by_id_map [OF ids that(1) keep_id] tab show ?thesis by simp
  qed
  have "map row_id (table (process_notifications e w)) = map row_id (table w)"
    by (simp add: tab o_def)
  with pending settled show ?thesis by blast
qed

lemma available_body_result: "whoisxml_result (Response code (Some available_body)) = Inr True"
  by (simp add: whoisxml_result_def whois_status_def available_body_def upper2_def upper3_def
      upper_char_def ascii_lowercase_def ascii_uppercase_def)

lemma unavailable_body_result: "whoisxml_result (Response code (Some unavailable_body)) = Inr False"
  by (simp add: whoisxml_result_def whois_status_def unavailable_body_def upper2_def upper3_def
      upper_char_def ascii_lowercase_def ascii_uppercase_def)

lemma raising_request_result:
  "whoisxml_result (RequestRaises m) = Inl (RuntimeError_WHOIS (RequestException m))"
  by (simp add: whoisxml_result_def)

lemma flaky_lookups:
  "\<not> lookup_available flaky_env t (row 11 ''down.com'' ''a@x.org'' False)"
  "\<not> lookup_available flaky_env t (row 12 ''taken.com'' ''a@x.org'' False)"
  "lookup_available flaky_env t (row 13 ''free.com'' ''bounce@x.org'' False)"
  "lookup_available flaky_env t (row 14 ''free.com'' ''ok@x.org'' False)"
  by (simp_all add: lookup_available_def flaky_env_def row_def available_body_result
      unavailable_body_result raising_request_result)

lemma flaky_sends:
  "\<not> send_succeeded flaky_env t (row 13 ''free.com'' ''bounce@x.org'' False)"
  "send_succeeded flaky_env t (row 14 ''free.com'' ''ok@x.org'' False)"
  by (simp_all add: send_succeeded_def flaky_env_def row_def notification_mail_def)

text \<open>A cycle over the example table against the second outside: the lookup of the first
  pending row raises, the domain of the second is taken, the mail of the third is refused,
  and only the fourth row becomes notified. The row notified before stays so.\<close>

theorem poll_cycle_marks_exactly_the_served_witness:
  "distinct (map row_id (table demo_world))
   \<and> find (\<lambda>r. row_id r = 11) (table (process_notifications flaky_env demo_world))
       = Some (row 11 ''down.com'' ''a@x.org'' False)
   \<and> find (\<lambda>r. row_id r = 12) (table (process_notifications flaky_env demo_world))
       = Some (row 12 ''taken.com'' ''a@x.org'' False)
   \<and> find (\<lambda>r. row_id r = 13) (table (process_notifications flaky_env demo_world))
       = Some (row 13 ''free.com'' ''bounce@x.org'' False)
   \<and> find (\<lambda>r. row_id r = 14) (table (process_notifications flaky_env demo_world))
       = Some (row 14 ''free.com'' ''ok@x.org'' True)
   \<and> find (\<lambda>r. row_id r = 15) (table (process_notifications flaky_env demo_world))
       = Some (row 15 ''old.com'' ''a@x.org'' True)"
proof -
  have ids: "distinct (map row_id (table demo_world))"
    by (simp add: demo_world_def row_def)
  note t = poll_cycle_marks_exactly_the_served [OF ids, of flaky_env]
  have len: "length (pending_rows (table demo_world)) = 4"
    by (simp add: demo_pending)
  have t0: "requests_made demo_world = 0"
    by (simp add: demo_world_def)
  have ids_of: "row_id (row i d a n) = i" for i d a n
    by (simp add: row_def)
  have upd: "(row i d a False)\<lparr>notified := b\<rparr> = row i d a b" for i d a b
    by (simp add: row_def)
  from t have p: "i < length (pending_rows (table demo_world)) \<Longrightarrow>
      find (\<lambda>r. row_id r = row_id (pending_rows (table demo_world) ! i))
           (table (process_notifications flaky_env demo_world))
      = Some ((pending_rows (table demo_world) ! i)
          \<lparr>notified := lookup_available flaky_env (requests_made demo_world + i)
                          (pending_rows (table demo_world) ! i)
                \<and> send_succeeded flaky_env (Suc (requests_made demo_world + i))
                          (pending_rows (table demo_world) ! i)\<rparr>)" for i
    by blast
  have r1: "find (\<lambda>r. row_id r = 11) (table (process_notifications flaky_env demo_world))
       = Some (row 11 ''down.com'' ''a@x.org'' False)"
    using p [of 0] by (simp add: len demo_pending t0 ids_of upd flaky_lookups)
  have r2: "find (\<lambda>r. row_id r = 12) (table (process_notifications flaky_env demo_world))
       = Some (row 12 ''taken.com'' ''a@x.org'' False)"
    using p [of 1] by (simp add: len demo_pending t0 ids_of upd flaky_lookups)
  have r3: "find (\<lambda>r. row_id r = 13) (table (process_notifications flaky_env demo_world))
       = Some (row 13 ''free.com'' ''bounce@x.org'' False)"
    using p [of 2] by (simp add: len demo_pending t0 ids_of upd flaky_lookups flaky_sends)
  have r4: "find (\<lambda>r. row_id r = 14) (table (process_notifications flaky_env demo_world))
       = Some (row 14 ''free.com'' ''ok@x.org'' True)"
    using p [of 3] by (simp add: len demo_pending t0 ids_of upd flaky_lookups flaky_sends)
  have mem: "row 15 ''old.com'' ''a@x.org'' True \<in> set (table demo_world)"
    and old: "notified (row 15 ''old.com'' ''a@x.org'' True)"
    by (simp_all add: demo_world_def row_def)
  from t mem old have r5: "find (\<lambda>x. row_id x = row_id (row 15 ''old.com'' ''a@x.org'' True))
         (table (process_notifications flaky_env demo_world))
       = Some (row 15 ''old.com'' ''a@x.org'' True)"
    by blast
  then have r5': "find (\<lambda>r. row_id r = 15) (table (process_notifications flaky_env demo_world))
       = Some (row 15 ''old.com'' ''a@x.org'' True)"
    by (simp only: ids_of)
  from ids r1 r2 r3 r4 r5' show ?thesis by blast
qed

text \<open>
  Claim C3. Whatever the lookups and the sends of a cycle give, the cycle issues one lookup
  for every row of the pending snapshot, in the order of the snapshot, and attempts one send
  for every row whose lookup returned available: a lookup that raises or a send that fails
  stops neither.
\<close>

theorem poll_cycle_processes_every_entry:
  "\<exists>evs. trace (process_notifications e w) = trace w @ evs
     \<and> lookups_of evs = map domain (pending_rows (table w))
     \<and> sends_of evs =
         map (\<lambda>i. notification_mail (pending_rows (table w) ! i))
             (filter (\<lambda>i. lookup_available e (requests_made w + i) (pending_rows (table w) ! i))
                     [0..<length (pending_rows (table w))])
     \<and> requests_made (process_notifications e w)
         = requests_made w + length (pending_rows (table w))"
proof -
  let ?P = "pending_rows (table w)"
  let ?evs = "concat (map (\<lambda>j. note_events e (requests_made w + j) (?P ! j)) [0..<length ?P])"
  have "trace (process_notifications e w) = trace w @ ?evs"
    by (simp add: process_notifications_def process_pending_trace)
  moreover have "lookups_of ?evs = map domain ?P"
    by (simp only: lookups_of_rounds map_over_indices)
  moreover have "sends_of ?evs =
         map (\<lambda>i. notification_mail (?P ! i))
             (filter (\<lambda>i. lookup_available e (requests_made w + i) (?P ! i)) [0..<length ?P])"
    by (rule sends_of_rounds)
  moreover have "requests_made (process_notifications e w) = requests_made w + length ?P"
    by (simp add: process_notifications_def process_pending_requests_made)
  ultimately show ?thesis by blast
qed

text \<open>In the same cycle all four pending rows are looked up, though the first lookup
  raises, and both available rows get their send, though the first send fails.\<close>

theorem poll_cycle_processes_every_entry_witness:
  "lookups_of (trace (process_notifications flaky_env demo_world))
     = [''down.com'', ''taken.com'', ''free.com'', ''free.com'']
   \<and> map mail_to (sends_of (trace (process_notifications flaky_env demo_world)))
     = [''bounce@x.org'', ''ok@x.org'']
   \<and> requests_made (process_notifications flaky_env demo_world) = 4"
proof -
  from poll_cycle_processes_every_entry [of flaky_env demo_world]
  obtain evs where tr: "trace (process_notifications flaky_env demo_world) = trace demo_world @ evs"
    and lk: "lookups_of evs = map domain (pending_rows (table demo_world))"
    and sd: "sends_of evs =
         map (\<lambda>i. notification_mail (pending_rows (table demo_world) ! i))
             (filter (\<lambda>i. lookup_available flaky_env (requests_made demo_world + i)
                            (pending_rows (table demo_world) ! i))
                     [0..<length (pending_rows (table demo_world))])"
    and rm: "requests_made (process_notifications flaky_env demo_world)
         = requests_made demo_world + length (pending_rows (table demo_world))"
    by blast
  have tr': "trace (process_notifications flaky_env demo_world) = evs"
    using tr by (simp add: demo_world_def)
  have idx: "[0..<4] = [0, Suc 0, 2, 3]"
    by (simp add: upt_conv_Cons)
  have l: "lookups_of evs = [''down.com'', ''taken.com'', ''free.com'', ''free.com'']"
    using lk by (simp add: demo_pending row_def)
  have s: "map mail_to (sends_of evs) = [''bounce@x.org'', ''ok@x.org'']"
    unfolding sd by (simp add: demo_pending idx flaky_lookups notification_mail_def o_def)
      (simp add: row_def)
  have len: "length (pending_rows (table demo_world)) = 4"
    by (simp add: demo_pending)
  have t0: "requests_made demo_world = 0"
    by (simp add: demo_world_def)
  have r: "requests_made (process_notifications flaky_env demo_world) = 4"
    using rm by (simp add: len t0)
  from l s r show ?thesis by (simp only: tr')
qed

section \<open>Properties of the /notify handler\<close>

lemma notify_strings:
  assumes "field kvs ''domain'' (JString []) = JString ds"
    and "field kvs ''email'' (JString []) = JString es"
  shows "notify (JObject kvs) now w =
     (case first_active (normalize_domain ds) (normalize_email es) (table w) of
        Some r \<Rightarrow> (Inr (200, Message ''Already registered for this domain''), w)
      | None \<Rightarrow>
          (Inr (201, Message ''Notification registered''),
           w\<lparr>table := table w @
             [\<lparr>row_id = next_id (table w), domain = normalize_domain ds,
               email = normalize_email es, notified = False, created_at = now\<rparr>]\<rparr>))"
  using assms
  by (simp add: notify_def field_def normalize_domain_def normalize_email_def Let_def
      split: option.splits)

lemma first_active_None_iff: "first_active d a rows = None \<longleftrightarrow> active_rows d a rows = []"
  by (auto simp: first_active_def active_rows_def find_None_iff filter_empty_conv)

lemma active_rows_append:
  "active_rows d a (xs @ ys) = active_rows d a xs @ active_rows d a ys"
  by (simp add: active_rows_def)

lemma active_rows_new:
  "active_rows d a [\<lparr>row_id = i, domain = d', email = a', notified = False, created_at = t\<rparr>]
     = (if d' = d \<and> a' = a
        then [\<lparr>row_id = i, domain = d', email = a', notified = False, created_at = t\<rparr>] else [])"
  by (simp add: active_rows_def)

text \<open>What a call of the handler can do to the table: nothing, or append an active row for
  a pair that had none.\<close>

lemma notify_table_cases:
  "table (snd (notify data now w)) = table w
   \<or> (\<exists>d' a' i t. active_rows d' a' (table w) = []
        \<and> table (snd (notify data now w))
            = table w @ [\<lparr>row_id = i, domain = d', email = a', notified = False, created_at = t\<rparr>])"
proof -
  have "table (snd (notify data now w)) = table w
   \<or> (\<exists>d' a' i t. first_active d' a' (table w) = None
        \<and> table (snd (notify data now w))
            = table w @ [\<lparr>row_id = i, domain = d', email = a', notified = False, created_at = t\<rparr>])"
    by (auto simp: notify_def Let_def split: sum.splits option.splits)
  then show ?thesis by (simp only: first_active_None_iff)
qed

lemma whoisxml_check_table: "table (snd (whoisxml_check e d w)) = table w"
  by (simp add: whoisxml_check_def emit_def)

lemma suggestion_loop_table: "table (snd (suggestion_loop e m cands sugs w)) = table w"
proof (induction cands arbitrary: sugs w)
  case Nil
  show ?case by simp
next
  case (Cons c cands)
  have step: "table (snd (whoisxml_check e c w)) = table w"
    by (rule whoisxml_check_table)
  show ?case
    using step
    by (cases "whoisxml_check e c w") (auto simp: Cons Let_def split: sum.splits)
qed

lemma whoisxml_check_table_pair: "whoisxml_check e d w = (r, w1) \<Longrightarrow> table w1 = table w"
  using whoisxml_check_table [of e d w] by simp

lemma suggestion_loop_table_pair:
  "suggestion_loop e m cands sugs w1 = (s, w2) \<Longrightarrow> table w2 = table w1"
  using suggestion_loop_table [of e m cands sugs w1] by simp

lemma check_domain_table: "table (snd (check_domain e data w)) = table w"
  unfolding check_domain_def Let_def
  by (auto split: sum.splits prod.splits
      dest!: whoisxml_check_table_pair suggestion_loop_table_pair)

lemma length_active_rows_map:
  assumes "\<And>r. F r = r \<or> F r = r\<lparr>notified := True\<rparr>"
  shows "length (active_rows d a (map F rows)) \<le> length (active_rows d a rows)"
proof (induction rows)
  case Nil
  show ?case by (simp add: active_rows_def)
next
  case (Cons r rows)
  from assms [of r] Cons show ?case
    by (auto simp: active_rows_def)
qed

lemma process_notifications_active:
  "length (active_rows d a (table (process_notifications e w))) \<le> length (active_rows d a (table w))"
  unfolding process_notifications_def process_pending_table
  by (rule length_active_rows_map) simp

lemma reachable_one_active:
  "reachable w \<Longrightarrow> length (active_rows d a (table w)) \<le> 1"
proof (induction arbitrary: d a rule: reachable.induct)
  case start
  show ?case by (simp add: initial_world_def active_rows_def)
next
  case (after_notify w data now)
  from notify_table_cases [of data now w] show ?case
  proof
    assume "table (snd (notify data now w)) = table w"
    with after_notify.IH show ?thesis by simp
  next
    assume "\<exists>d' a' i t. active_rows d' a' (table w) = []
        \<and> table (snd (notify data now w))
            = table w @ [\<lparr>row_id = i, domain = d', email = a', notified = False, created_at = t\<rparr>]"
    then obtain d' a' i t where none: "active_rows d' a' (table w) = []"
      and tab: "table (snd (notify data now w))
            = table w @ [\<lparr>row_id = i, domain = d', email = a', notified = False, created_at = t\<rparr>]"
      by blast
    show ?thesis
    proof (cases "d' = d \<and> a' = a")
      case True
      with none tab show ?thesis by (simp add: active_rows_append active_rows_new)
    next
      case False
      with tab after_notify.IH [of d a] show ?thesis
        by (auto simp: active_rows_append active_rows_new)
    qed
  qed
next
  case (after_check w e data)
  then show ?case by (simp add: check_domain_table)
next
  case (after_poll w e)
  from process_notifications_active [of d a e w] after_poll.IH [of d a]
  show ?case by simp
qed

lemma first_active_Some_mem:
  "first_active d a rows = Some r \<Longrightarrow> active_rows d a rows \<noteq> []"
  using first_active_None_iff [of d a rows] by auto

lemma normalize_foo: "normalize_domain '' Foo'' = ''foo.com''" "normalize_email ''A@x.org'' = ''a@x.org''"
  by (simp_all add: normalize_domain_def normalize_email_def py_strip_def py_isspace_def
      whitespace_def py_lower_def lower_char_def ascii_lowercase_def ascii_uppercase_def
      has_dot_def)

lemma foo_fields:
  "field [(''domain'', JString '' Foo''), (''email'', JString ''A@x.org'')] ''domain'' (JString [])
     = JString '' Foo''"
  "field [(''domain'', JString '' Foo''), (''email'', JString ''A@x.org'')] ''email'' (JString [])
     = JString ''A@x.org''"
  by (simp_all add: field_def)

lemma first_registration:
  "notify foo_request 5 initial_world =
     (Inr (201, Message ''Notification registered''),
      \<lparr>table = [\<lparr>row_id = Suc 0, domain = ''foo.com'', email = ''a@x.org'', notified = False,
                  created_at = 5\<rparr>],
       requests_made = 0, trace = []\<rparr>)"
  by (simp add: notify_def foo_request_def initial_world_def first_active_def next_id_def
      Let_def py_strip_def py_isspace_def whitespace_def py_lower_def lower_char_def
      ascii_lowercase_def ascii_uppercase_def has_dot_def)

lemma friendly_cycle:
  "table (process_notifications friendly_env (snd (notify foo_request 5 initial_world)))
     = [\<lparr>row_id = Suc 0, domain = ''foo.com'', email = ''a@x.org'', notified = True,
          created_at = 5\<rparr>]"
  by (simp add: first_registration process_notifications_def pending_rows_def
      process_note_table lookup_available_def send_succeeded_def friendly_env_def
      available_body_result)

text \<open>
  Claim C2, as amended. A registration request whose domain and email fields are strings (or
  missing) is sent twice in a row. In every state the second call answers 200 with the
  message "already registered" and leaves the state as the first call left it, and the two
  calls leave as many active rows for the normalised (domain, email) pair of the request as
  there were, or one if there was none. So they leave exactly one active row when the
  table held at most one for the pair, which is so in every state the system reaches from
  the empty table by requests and scheduler cycles, one after the other.
\<close>

theorem notify_twice_one_active_row:
  assumes "field kvs ''domain'' (JString []) = JString ds"
    and "field kvs ''email'' (JString []) = JString es"
  shows "notify (JObject kvs) now2 (snd (notify (JObject kvs) now1 w))
           = (Inr (200, Message ''Already registered for this domain''),
              snd (notify (JObject kvs) now1 w))
       \<and> length (active_rows (normalize_domain ds) (normalize_email es)
                  (table (snd (notify (JObject kvs) now1 w))))
           = max 1 (length (active_rows (normalize_domain ds) (normalize_email es) (table w)))
       \<and> (length (active_rows (normalize_domain ds) (normalize_email es) (table w)) \<le> 1 \<longrightarrow>
            length (active_rows (normalize_domain ds) (normalize_email es)
                     (table (snd (notify (JObject kvs) now1 w)))) = 1)
       \<and> (reachable w \<longrightarrow>
            length (active_rows (normalize_domain ds) (normalize_email es)
                     (table (snd (notify (JObject kvs) now1 w)))) = 1)"
proof -
  let ?d = "normalize_domain ds" and ?a = "normalize_email es"
  let ?w1 = "snd (notify (JObject kvs) now1 w)"
  note first = notify_strings [OF assms, of now1 w]
  have both: "notify (JObject kvs) now2 ?w1
           = (Inr (200, Message ''Already registered for this domain''), ?w1)
      \<and> length (active_rows ?d ?a (table ?w1))
           = max 1 (length (active_rows ?d ?a (table w)))"
  proof (cases "first_active ?d ?a (table w)")
    case (Some r)
    with first have w1: "?w1 = w" by simp
    have again: "notify (JObject kvs) now2 ?w1
           = (Inr (200, Message ''Already registered for this domain''), ?w1)"
      using notify_strings [OF assms, of now2 w] Some by (simp add: w1)
    from Some have "active_rows ?d ?a (table w) \<noteq> []" by (rule first_active_Some_mem)
    then have "max 1 (length (active_rows ?d ?a (table w))) = length (active_rows ?d ?a (table w))"
      by (cases "active_rows ?d ?a (table w)") simp_all
    then have "length (active_rows ?d ?a (table ?w1))
           = max 1 (length (active_rows ?d ?a (table w)))"
      by (simp only: w1)
    with again show ?thesis by blast
  next
    case None
    let ?new = "\<lparr>row_id = next_id (table w), domain = ?d, email = ?a, notified = False,
                  created_at = now1\<rparr>"
    from first None have w1: "?w1 = w\<lparr>table := table w @ [?new]\<rparr>" by simp
    from None have empty: "active_rows ?d ?a (table w) = []"
      by (simp add: first_active_None_iff)
    have act: "active_rows ?d ?a (table ?w1) = [?new]"
      by (simp add: w1 active_rows_append active_rows_new empty)
    then have "first_active ?d ?a (table ?w1) \<noteq> None"
      by (simp add: first_active_None_iff)
    then obtain r where "first_active ?d ?a (table ?w1) = Some r" by blast
    with notify_strings [OF assms, of now2 ?w1]
    have again: "notify (JObject kvs) now2 ?w1
           = (Inr (200, Message ''Already registered for this domain''), ?w1)"
      by simp
    from act empty have "length (active_rows ?d ?a (table ?w1))
           = max 1 (length (active_rows ?d ?a (table w)))"
      by simp
    with again show ?thesis by blast
  qed
  from both have second: "notify (JObject kvs) now2 ?w1
           = (Inr (200, Message ''Already registered for this domain''), ?w1)"
    and count: "length (active_rows ?d ?a (table ?w1))
           = max 1 (length (active_rows ?d ?a (table w)))"
    by blast+
  have one: "length (active_rows ?d ?a (table ?w1)) = 1"
    if "length (active_rows ?d ?a (table w)) \<le> 1"
    using count that by simp
  have reached: "length (active_rows ?d ?a (table ?w1)) = 1" if "reachable w"
    using one reachable_one_active [OF that, of ?d ?a] by simp
  from second count one reached show ?thesis by blast
qed

text \<open>The request \<^verbatim>\<open>{"domain": " Foo", "email": "A@x.org"}\<close> sent twice to the empty
  table.\<close>

theorem notify_twice_one_active_row_witness:
  "reachable initial_world
   \<and> length (active_rows ''foo.com'' ''a@x.org'' (table initial_world)) \<le> 1
   \<and> notify foo_request 8 (snd (notify foo_request 5 initial_world))
       = (Inr (200, Message ''Already registered for this domain''),
          snd (notify foo_request 5 initial_world))
   \<and> length (active_rows ''foo.com'' ''a@x.org''
        (table (snd (notify foo_request 5 initial_world)))) = 1"
proof -
  have few: "length (active_rows ''foo.com'' ''a@x.org'' (table initial_world)) \<le> 1"
    by (simp add: initial_world_def active_rows_def)
  note t = notify_twice_one_active_row [OF foo_fields, of 8 5 initial_world,
      unfolded normalize_foo, folded foo_request_def]
  from t few reachable.start show ?thesis by blast
qed

text \<open>Claim C2 as stated holds of every state of the store. The table has no uniqueness
  constraint, and in a table that holds two active rows for the pair both calls find the
  first of them: each answers 200, and the two rows are still there.\<close>

theorem notify_twice_duplicates_counterexample:
  "distinct (map row_id (table dup_world))
   \<and> notify foo_request 5 dup_world
       = (Inr (200, Message ''Already registered for this domain''), dup_world)
   \<and> notify foo_request 8 (snd (notify foo_request 5 dup_world))
       = (Inr (200, Message ''Already registered for this domain''), dup_world)
   \<and> length (active_rows ''foo.com'' ''a@x.org''
        (table (snd (notify foo_request 8 (snd (notify foo_request 5 dup_world)))))) = 2"
proof -
  have ids: "distinct (map row_id (table dup_world))"
    by (simp add: dup_world_def row_def)
  have found: "first_active ''foo.com'' ''a@x.org'' (table dup_world)
      = Some (row 11 ''foo.com'' ''a@x.org'' False)"
    by (simp add: dup_world_def first_active_def row_def)
  have call: "notify foo_request t dup_world
       = (Inr (200, Message ''Already registered for this domain''), dup_world)" for t
    using notify_strings [OF foo_fields, of t dup_world, unfolded normalize_foo,
        folded foo_request_def]
    by (simp add: found)
  have two: "length (active_rows ''foo.com'' ''a@x.org'' (table dup_world)) = 2"
    by (simp add: dup_world_def active_rows_def row_def)
  from ids call [of 5] call [of 8] two show ?thesis by simp
qed

text \<open>
  Claim C7. When every row the table holds for the pair of a request is notified, the
  request is not a duplicate: the handler answers 201 and appends a new row with
  \<open>notified = False\<close>, next to the notified rows, which stay.
\<close>

theorem notify_after_notified_creates_row:
  assumes "field kvs ''domain'' (JString []) = JString ds"
    and "field kvs ''email'' (JString []) = JString es"
    and "\<forall>r \<in> set (table w).
           domain r = normalize_domain ds \<and> email r = normalize_email es \<longrightarrow> notified r"
  shows "notify (JObject kvs) now w =
     (Inr (201, Message ''Notification registered''),
      w\<lparr>table := table w @
         [\<lparr>row_id = next_id (table w), domain = normalize_domain ds,
           email = normalize_email es, notified = False, created_at = now\<rparr>]\<rparr>)"
proof -
  from assms(3) have "active_rows (normalize_domain ds) (normalize_email es) (table w) = []"
    by (auto simp: active_rows_def filter_empty_conv)
  then have "first_active (normalize_domain ds) (normalize_email es) (table w) = None"
    by (simp add: first_active_None_iff)
  with notify_strings [OF assms(1,2), of now w] show ?thesis by simp
qed

text \<open>A registration, a scheduler cycle that notifies it, and the same registration again:
  the table ends with the notified row and a new active row for the same pair.\<close>

theorem notify_after_notified_creates_row_witness:
  "table (process_notifications friendly_env (snd (notify foo_request 5 initial_world)))
     = [\<lparr>row_id = Suc 0, domain = ''foo.com'', email = ''a@x.org'', notified = True,
          created_at = 5\<rparr>]
   \<and> fst (notify foo_request 9
        (process_notifications friendly_env (snd (notify foo_request 5 initial_world))))
       = Inr (201, Message ''Notification registered'')
   \<and> table (snd (notify foo_request 9
        (process_notifications friendly_env (snd (notify foo_request 5 initial_world)))))
       = [\<lparr>row_id = Suc 0, domain = ''foo.com'', email = ''a@x.org'', notified = True,
            created_at = 5\<rparr>,
          \<lparr>row_id = 2, domain = ''foo.com'', email = ''a@x.org'', notified = False,
            created_at = 9\<rparr>]"
proof -
  let ?w2 = "process_notifications friendly_env (snd (notify foo_request 5 initial_world))"
  have hist: "\<forall>r \<in> set (table ?w2).
      domain r = normalize_domain '' Foo'' \<and> email r = normalize_email ''A@x.org'' \<longrightarrow> notified r"
    by (simp add: friendly_cycle)
  from notify_after_notified_creates_row [OF foo_fields hist, of 9]
  have "notify foo_request 9 ?w2 =
     (Inr (201, Message ''Notification registered''),
      ?w2\<lparr>table := table ?w2 @
         [\<lparr>row_id = next_id (table ?w2), domain = ''foo.com'',
           email = ''a@x.org'', notified = False, created_at = 9\<rparr>]\<rparr>)"
    by (simp add: foo_request_def normalize_foo)
  then show ?thesis
    by (simp add: friendly_cycle next_id_def)
qed





section \<open>Properties of the /check handler\<close>

lemma check_domain_fields:
  assumes "field kvs ''query'' (JString []) = JString q"
    and "py_int e (field kvs ''max_suggestions'' (JInt 6)) = Inr m"
  shows "check_domain e (JObject kvs) w =
     (case whoisxml_check e (normalize_domain q) w of
        (Inl ex, w1) \<Rightarrow> (Inr (500, ErrorBody ex), w1)
      | (Inr available, w1) \<Rightarrow>
          (case suggestion_loop e m (generate_suggestions (py_lower (py_strip q)) m) [] w1 of
             (suggestions, w2) \<Rightarrow>
               (Inr (200, CheckBody (normalize_domain q) available suggestions), w2)))"
  using assms
  by (simp add: check_domain_def field_def normalize_domain_def Let_def
      split: option.splits prod.splits sum.splits)

lemma whoisxml_check_fst:
  "fst (whoisxml_check e d w) = whoisxml_result (http_get e (requests_made w) d)"
  by (simp add: whoisxml_check_def)

lemma whoisxml_check_snd_trace:
  "trace (snd (whoisxml_check e d w)) = trace w @ [WhoisRequest d]"
  by (simp add: whoisxml_check_def emit_def)

lemma whoisxml_check_snd_requests:
  "requests_made (snd (whoisxml_check e d w)) = Suc (requests_made w)"
  by (simp add: whoisxml_check_def emit_def)

lemma suggestion_loop_trace:
  "\<exists>evs. trace (snd (suggestion_loop e m cands sugs w)) = trace w @ evs"
proof (induction cands arbitrary: sugs w)
  case Nil
  show ?case by simp
next
  case (Cons c cands)
  obtain r w1 where step: "whoisxml_check e c w = (r, w1)" by (cases "whoisxml_check e c w")
  then have tr: "trace w1 = trace w @ [WhoisRequest c]"
    using whoisxml_check_snd_trace [of e c w] by simp
  from Cons [of _ w1] have rest: "\<exists>evs. trace (snd (suggestion_loop e m cands s w1)) = trace w @ evs" for s
    by (auto simp: tr)
  show ?case
  proof (cases r)
    case (Inl ex)
    with step rest show ?thesis by simp
  next
    case (Inr ok)
    with step rest tr show ?thesis by (simp add: Let_def)
  qed
qed

lemma suggestion_loop_below_cap:
  "int (length sugs) < m \<Longrightarrow> int (length (fst (suggestion_loop e m cands sugs w))) \<le> m"
proof (induction cands arbitrary: sugs w)
  case Nil
  then show ?case by simp
next
  case (Cons c cands)
  obtain r w1 where step: "whoisxml_check e c w = (r, w1)" by (cases "whoisxml_check e c w")
  show ?case
  proof (cases r)
    case (Inl ex)
    with step Cons show ?thesis by simp
  next
    case (Inr ok)
    show ?thesis
    proof (cases "m \<le> int (length (if ok then sugs @ [c] else sugs))")
      case True
      with step Inr Cons.prems show ?thesis by (auto simp: Let_def split: if_splits)
    next
      case False
      then have "int (length (if ok then sugs @ [c] else sugs)) < m" by simp
      from Cons.IH [OF this, of w1] step Inr False show ?thesis by (simp add: Let_def)
    qed
  qed
qed

lemma suggestion_loop_at_cap:
  "m \<le> int (length sugs) \<Longrightarrow> length (fst (suggestion_loop e m cands sugs w)) \<le> Suc (length sugs)"
proof (induction cands arbitrary: w)
  case Nil
  then show ?case by simp
next
  case (Cons c cands)
  obtain r w1 where step: "whoisxml_check e c w = (r, w1)" by (cases "whoisxml_check e c w")
  show ?case
  proof (cases r)
    case (Inl ex)
    with step Cons show ?thesis by simp
  next
    case (Inr ok)
    with step Cons.prems show ?thesis by (auto simp: Let_def)
  qed
qed

lemma suggestion_loop_subset:
  "set (fst (suggestion_loop e m cands sugs w)) \<subseteq> set sugs \<union> set cands"
proof (induction cands arbitrary: sugs w)
  case Nil
  show ?case by simp
next
  case (Cons c cands)
  obtain r w1 where step: "whoisxml_check e c w = (r, w1)" by (cases "whoisxml_check e c w")
  show ?case
  proof (cases r)
    case (Inl ex)
    with step Cons [of sugs w1] show ?thesis by auto
  next
    case (Inr ok)
    with step Cons [of "sugs @ [c]" w1] Cons [of sugs w1] show ?thesis
      by (auto simp: Let_def)
  qed
qed

lemma generate_suggestions_zero: "generate_suggestions q 0 = []"
  by (simp add: generate_suggestions_def py_slice_to_def)

lemma suggestions_within_cap:
  "(0 \<le> m \<longrightarrow> int (length (fst (suggestion_loop e m (generate_suggestions q m) [] w))) \<le> m)
   \<and> (m < 0 \<longrightarrow> length (fst (suggestion_loop e m (generate_suggestions q m) [] w)) \<le> 1)"
proof -
  have "int (length (fst (suggestion_loop e m (generate_suggestions q m) [] w))) \<le> m" if "0 < m"
    using suggestion_loop_below_cap [of "[]" m e "generate_suggestions q m" w] that by simp
  moreover have "int (length (fst (suggestion_loop e 0 (generate_suggestions q 0) [] w))) \<le> 0"
    by (simp add: generate_suggestions_zero)
  moreover have "length (fst (suggestion_loop e m (generate_suggestions q m) [] w)) \<le> 1" if "m < 0"
    using suggestion_loop_at_cap [of m "[]" e "generate_suggestions q m" w] that by simp
  ultimately show ?thesis by (cases "m = 0") auto
qed

lemma normalize_plain: "normalize_domain ''foo'' = ''foo.com''" "normalize_domain ''down'' = ''down.com''"
  by (simp_all add: normalize_domain_def py_strip_def py_isspace_def
      whitespace_def py_lower_def lower_char_def ascii_lowercase_def ascii_uppercase_def
      has_dot_def)

lemma first_candidate: "take 1 (generate_suggestions ''foo'' (- 1)) = [''foo.com'']"
  by code_simp

text \<open>
  Claim C8, as amended. A request to \<^verbatim>\<open>/check\<close> has a string (or missing) query and a
  \<^verbatim>\<open>max_suggestions\<close> that \<^verbatim>\<open>int()\<close> converts to \<open>m\<close> (6 when the field is missing). If
  the primary lookup raises, the answer is 500 with the error as its body, without
  suggestions, and no candidate is looked up. If the primary lookup returns, the answer is
  200 with the domain, the availability and a list of suggestions taken from the generated
  candidates, whatever the lookups of the candidates give or raise; the list has at most
  \<open>m\<close> entries when \<open>m\<close> is not negative, and at most one entry when \<open>m\<close> is negative.
\<close>

theorem check_domain_responses:
  assumes q: "field kvs ''query'' (JString []) = JString q"
    and m: "py_int e (field kvs ''max_suggestions'' (JInt 6)) = Inr m"
  shows "(whoisxml_result (http_get e (requests_made w) (normalize_domain q)) = Inl ex \<longrightarrow>
            fst (check_domain e (JObject kvs) w) = Inr (500, ErrorBody ex)
            \<and> requests_made (snd (check_domain e (JObject kvs) w)) = Suc (requests_made w))
       \<and> (whoisxml_result (http_get e (requests_made w) (normalize_domain q)) = Inr av \<longrightarrow>
            (\<exists>sugs. fst (check_domain e (JObject kvs) w)
                       = Inr (200, CheckBody (normalize_domain q) av sugs)
               \<and> (0 \<le> m \<longrightarrow> int (length sugs) \<le> m)
               \<and> (m < 0 \<longrightarrow> length sugs \<le> 1)
               \<and> set sugs \<subseteq> set (generate_suggestions (py_lower (py_strip q)) m)))
       \<and> (map_of kvs ''max_suggestions'' = None \<longrightarrow> m = 6)"
proof -
  let ?d = "normalize_domain q"
  note cd = check_domain_fields [OF q m, of w]
  obtain w1 where prim: "whoisxml_check e ?d w = (whoisxml_result (http_get e (requests_made w) ?d), w1)"
    and rm: "requests_made w1 = Suc (requests_made w)"
    by (simp add: whoisxml_check_def emit_def)
  have failed: "fst (check_domain e (JObject kvs) w) = Inr (500, ErrorBody ex)
            \<and> requests_made (snd (check_domain e (JObject kvs) w)) = Suc (requests_made w)"
    if "whoisxml_result (http_get e (requests_made w) ?d) = Inl ex"
    using cd prim that rm by simp
  have answered: "\<exists>sugs. fst (check_domain e (JObject kvs) w) = Inr (200, CheckBody ?d av sugs)
               \<and> (0 \<le> m \<longrightarrow> int (length sugs) \<le> m)
               \<and> (m < 0 \<longrightarrow> length sugs \<le> 1)
               \<and> set sugs \<subseteq> set (generate_suggestions (py_lower (py_strip q)) m)"
    if ok: "whoisxml_result (http_get e (requests_made w) ?d) = Inr av"
  proof -
    let ?cands = "generate_suggestions (py_lower (py_strip q)) m"
    let ?loop = "suggestion_loop e m ?cands [] w1"
    from cd prim ok have "fst (check_domain e (JObject kvs) w) = Inr (200, CheckBody ?d av (fst ?loop))"
      by (simp add: split_beta)
    moreover note suggestions_within_cap [of m e "py_lower (py_strip q)" w1]
    moreover from suggestion_loop_subset [of e m ?cands "[]" w1]
    have "set (fst ?loop) \<subseteq> set ?cands" by simp
    ultimately show ?thesis by blast
  qed
  have dflt: "m = 6" if "map_of kvs ''max_suggestions'' = None"
    using m that by (simp add: field_def)
  from failed answered dflt show ?thesis by blast
qed

text \<open>Against the second outside the query \<^verbatim>\<open>down\<close> is answered 500 after one lookup,
  and the query \<^verbatim>\<open>foo\<close> is answered 200 with at most six suggestions.\<close>

theorem check_domain_responses_witness:
  "fst (check_domain flaky_env (JObject [(''query'', JString ''down'')]) initial_world)
     = Inr (500, ErrorBody (RuntimeError_WHOIS (RequestException ''timed out'')))
   \<and> requests_made (snd (check_domain flaky_env (JObject [(''query'', JString ''down'')]) initial_world))
     = 1
   \<and> (\<exists>sugs. fst (check_domain flaky_env (JObject [(''query'', JString ''foo'')]) initial_world)
                = Inr (200, CheckBody ''foo.com'' True sugs)
        \<and> int (length sugs) \<le> 6)"
proof -
  have f1: "field [(''query'', JString ''down'')] ''query'' (JString []) = JString ''down''"
    and f2: "field [(''query'', JString ''foo'')] ''query'' (JString []) = JString ''foo''"
    by (simp_all add: field_def)
  have m1: "py_int flaky_env (field [(''query'', JString ''down'')] ''max_suggestions'' (JInt 6)) = Inr 6"
    and m2: "py_int flaky_env (field [(''query'', JString ''foo'')] ''max_suggestions'' (JInt 6)) = Inr 6"
    by (simp_all add: field_def)
  have t0: "requests_made initial_world = 0"
    by (simp add: initial_world_def)
  have down: "whoisxml_result (http_get flaky_env (requests_made initial_world) (normalize_domain ''down''))
      = Inl (RuntimeError_WHOIS (RequestException ''timed out''))"
    by (simp add: normalize_plain flaky_env_def raising_request_result)
  have foo: "whoisxml_result (http_get flaky_env (requests_made initial_world) (normalize_domain ''foo''))
      = Inr True"
    by (simp add: normalize_plain flaky_env_def available_body_result)
  from check_domain_responses [OF f1 m1, of initial_world] down
  have a: "fst (check_domain flaky_env (JObject [(''query'', JString ''down'')]) initial_world)
     = Inr (500, ErrorBody (RuntimeError_WHOIS (RequestException ''timed out'')))
   \<and> requests_made (snd (check_domain flaky_env (JObject [(''query'', JString ''down'')]) initial_world))
     = 1"
    by (simp add: t0)
  from check_domain_responses [OF f2 m2, of initial_world _ True] foo
  have b: "\<exists>sugs. fst (check_domain flaky_env (JObject [(''query'', JString ''foo'')]) initial_world)
                = Inr (200, CheckBody ''foo.com'' True sugs)
        \<and> int (length sugs) \<le> 6"
    by (auto simp: normalize_plain)
  from a b show ?thesis by blast
qed

text \<open>Claim C8 as stated bounds the suggestions by \<^verbatim>\<open>max_suggestions\<close> for every
  request. With \<^verbatim>\<open>max_suggestions = -1\<close> the slice \<^verbatim>\<open>[:-3]\<close> of the candidates is not
  empty, the first candidate is looked up and appended, and only then does the loop break:
  the answer carries one suggestion.\<close>

theorem check_domain_negative_cap_counterexample:
  "fst (check_domain friendly_env
          (JObject [(''query'', JString ''foo''), (''max_suggestions'', JInt (- 1))]) initial_world)
     = Inr (200, CheckBody ''foo.com'' True [''foo.com''])
   \<and> \<not> int (length [''foo.com'']) \<le> - 1"
proof -
  let ?kvs = "[(''query'', JString ''foo''), (''max_suggestions'', JInt (- 1))]"
  have f: "field ?kvs ''query'' (JString []) = JString ''foo''"
    and m: "py_int friendly_env (field ?kvs ''max_suggestions'' (JInt 6)) = Inr (- 1)"
    by (simp_all add: field_def)
  have lower: "py_lower (py_strip ''foo'') = ''foo''"
    by (simp add: py_strip_def py_isspace_def whitespace_def py_lower_def lower_char_def
        ascii_lowercase_def ascii_uppercase_def)
  from first_candidate obtain rest where cands: "generate_suggestions ''foo'' (- 1) = ''foo.com'' # rest"
    by (cases "generate_suggestions ''foo'' (- 1)") auto
  have chk: "fst (whoisxml_check friendly_env d w) = Inr True" for d w
    by (simp add: whoisxml_check_def friendly_env_def available_body_result)
  have loop: "fst (suggestion_loop friendly_env (- 1) (''foo.com'' # rest) [] w) = [''foo.com'']" for w
    using chk [of "''foo.com''" w] by (cases "whoisxml_check friendly_env ''foo.com'' w") (simp add: Let_def)
  have "fst (check_domain friendly_env (JObject ?kvs) initial_world)
     = Inr (200, CheckBody ''foo.com'' True [''foo.com''])"
    using chk [of "''foo.com''" initial_world] loop
    by (cases "whoisxml_check friendly_env ''foo.com'' initial_world")
      (simp add: check_domain_fields [OF f m] normalize_plain lower cands split_beta)
  then show ?thesis by simp
qed

lemma lower_char_dot: "lower_char c = CHR ''.'' \<longleftrightarrow> c = CHR ''.''"
  by (simp add: lower_char_def ascii_lowercase_def ascii_uppercase_def)

lemma dot_lower_char: "CHR ''.'' = lower_char c \<longleftrightarrow> CHR ''.'' = c"
  by (simp add: lower_char_def ascii_lowercase_def ascii_uppercase_def)

lemma has_dot_py_lower: "has_dot (py_lower s) = has_dot s"
  by (induction s) (simp_all add: has_dot_def py_lower_def dot_lower_char)

lemma set_py_strip: "set (py_strip s) \<subseteq> set s"
proof -
  have "set (py_strip s) \<subseteq> set (dropWhile py_isspace s)"
    unfolding py_strip_def using set_dropWhileD by fastforce
  also have "\<dots> \<subseteq> set s"
    using set_dropWhileD by fastforce
  finally show ?thesis .
qed

lemma no_dot_after_strip_lower: "\<not> has_dot s \<Longrightarrow> \<not> has_dot (py_lower (py_strip s))"
  using set_py_strip [of s] by (auto simp: has_dot_py_lower) (auto simp: has_dot_def)

lemma check_domain_first_lookup:
  assumes "field kvs ''query'' (JString []) = JString s"
    and "py_int e (field kvs ''max_suggestions'' (JInt 6)) = Inr m"
  shows "\<exists>evs. trace (snd (check_domain e (JObject kvs) w))
                 = trace w @ WhoisRequest (normalize_domain s) # evs"
proof -
  let ?d = "normalize_domain s"
  obtain r w1 where prim: "whoisxml_check e ?d w = (r, w1)"
    by (cases "whoisxml_check e ?d w")
  then have tr: "trace w1 = trace w @ [WhoisRequest ?d]"
    using whoisxml_check_snd_trace [of e ?d w] by simp
  note cd = check_domain_fields [OF assms, of w]
  show ?thesis
  proof (cases r)
    case (Inl ex)
    with cd prim tr show ?thesis by simp
  next
    case (Inr av)
    let ?loop = "suggestion_loop e m (generate_suggestions (py_lower (py_strip s)) m) [] w1"
    from suggestion_loop_trace [of e m _ "[]" w1]
    obtain evs where "trace (snd ?loop) = trace w1 @ evs" by blast
    with cd prim tr Inr show ?thesis by (simp add: split_beta)
  qed
qed

lemma notify_row_for_pair:
  assumes "field kvs ''domain'' (JString []) = JString s"
    and "field kvs ''email'' (JString []) = JString es"
  shows "\<exists>r \<in> set (table (snd (notify (JObject kvs) now w))).
           domain r = normalize_domain s \<and> email r = normalize_email es \<and> \<not> notified r"
proof (cases "first_active (normalize_domain s) (normalize_email es) (table w)")
  case None
  with notify_strings [OF assms, of now w] show ?thesis by simp
next
  case (Some r)
  then have "r \<in> set (table w) \<and> domain r = normalize_domain s \<and> email r = normalize_email es
      \<and> \<not> notified r"
    by (auto simp: first_active_def find_Some_iff)
  with notify_strings [OF assms, of now w] Some show ?thesis by auto
qed

text \<open>
  Claim C6, as amended. \<^verbatim>\<open>/check\<close> and \<^verbatim>\<open>/notify\<close> apply the same normalisation to the
  string they are given: surrounding white space is stripped, the rest is lower-cased, and
  \<^verbatim>\<open>.com\<close> is appended when the result has no dot. The first lookup of \<^verbatim>\<open>/check\<close> is for
  the normalised query, and the row \<^verbatim>\<open>/notify\<close> registers or meets as a duplicate has the
  normalised domain. For a query without a dot the lookup is for the stripped, lower-cased
  query followed by \<^verbatim>\<open>.com\<close>, which is the lower-cased query followed by \<^verbatim>\<open>.com\<close> when
  the query has no surrounding white space.
\<close>

theorem domain_normalization_shared:
  "(field kvs ''query'' (JString []) = JString s
      \<and> py_int e (field kvs ''max_suggestions'' (JInt 6)) = Inr m \<longrightarrow>
      (\<exists>evs. trace (snd (check_domain e (JObject kvs) w))
                = trace w @ WhoisRequest (normalize_domain s) # evs))
   \<and> (field kvs' ''domain'' (JString []) = JString s
      \<and> field kvs' ''email'' (JString []) = JString es \<longrightarrow>
      (\<exists>r \<in> set (table (snd (notify (JObject kvs') now w'))).
           domain r = normalize_domain s \<and> email r = normalize_email es \<and> \<not> notified r))
   \<and> normalize_domain s =
        (if has_dot (py_lower (py_strip s)) then py_lower (py_strip s)
         else py_lower (py_strip s) @ ''.com'')
   \<and> (\<not> has_dot s \<longrightarrow> normalize_domain s = py_lower (py_strip s) @ ''.com'')
   \<and> (\<not> has_dot s \<and> py_strip s = s \<longrightarrow> normalize_domain s = py_lower s @ ''.com'')"
proof -
  have rule: "normalize_domain s =
        (if has_dot (py_lower (py_strip s)) then py_lower (py_strip s)
         else py_lower (py_strip s) @ ''.com'')"
    by (simp add: normalize_domain_def Let_def)
  have nodot: "normalize_domain s = py_lower (py_strip s) @ ''.com''" if "\<not> has_dot s"
    using no_dot_after_strip_lower [OF that] by (simp add: rule)
  have plain: "normalize_domain s = py_lower s @ ''.com''" if "\<not> has_dot s" "py_strip s = s"
    using nodot [OF that(1)] that(2) by simp
  from check_domain_first_lookup [of kvs s e m w] notify_row_for_pair [of kvs' s es now w']
    rule nodot plain
  show ?thesis by blast
qed

text \<open>The string \<^verbatim>\<open>" Foo"\<close> given to both handlers: \<^verbatim>\<open>/check\<close> looks \<^verbatim>\<open>foo.com\<close> up
  first and \<^verbatim>\<open>/notify\<close> stores \<^verbatim>\<open>foo.com\<close>.\<close>

theorem domain_normalization_shared_witness:
  "(\<exists>evs. trace (snd (check_domain friendly_env (JObject [(''query'', JString '' Foo'')]) initial_world))
            = WhoisRequest ''foo.com'' # evs)
   \<and> (\<exists>r \<in> set (table (snd (notify foo_request 5 initial_world))).
         domain r = ''foo.com'' \<and> email r = ''a@x.org'' \<and> \<not> notified r)
   \<and> normalize_domain ''foo'' = ''foo.com''"
proof -
  have f: "field [(''query'', JString '' Foo'')] ''query'' (JString []) = JString '' Foo''"
    and m: "py_int friendly_env (field [(''query'', JString '' Foo'')] ''max_suggestions'' (JInt 6)) = Inr 6"
    by (simp_all add: field_def)
  have nd: "\<not> has_dot ''foo''" and st: "py_strip ''foo'' = ''foo''"
    and lw: "py_lower ''foo'' = ''foo''"
    by (simp_all add: has_dot_def py_strip_def py_isspace_def whitespace_def py_lower_def
        lower_char_def ascii_lowercase_def ascii_uppercase_def)
  note t1 = domain_normalization_shared [of "[(''query'', JString '' Foo'')]" "'' Foo''"
      friendly_env 6 initial_world "[(''domain'', JString '' Foo''), (''email'', JString ''A@x.org'')]"
      "''A@x.org''" 5 initial_world]
  note t2 = domain_normalization_shared [of _ "''foo''"]
  have tr0: "trace initial_world = []"
    by (simp add: initial_world_def)
  from t1 [THEN conjunct1] f m
  have "\<exists>evs. trace (snd (check_domain friendly_env (JObject [(''query'', JString '' Foo'')]) initial_world))
            = trace initial_world @ WhoisRequest (normalize_domain '' Foo'') # evs"
    by blast
  then have a: "\<exists>evs. trace (snd (check_domain friendly_env (JObject [(''query'', JString '' Foo'')]) initial_world))
            = WhoisRequest ''foo.com'' # evs"
    by (simp add: normalize_foo tr0)
  from t1 [THEN conjunct2, THEN conjunct1] foo_fields
  have "\<exists>r \<in> set (table (snd (notify
            (JObject [(''domain'', JString '' Foo''), (''email'', JString ''A@x.org'')]) 5 initial_world))).
         domain r = normalize_domain '' Foo'' \<and> email r = normalize_email ''A@x.org'' \<and> \<not> notified r"
    by blast
  then have b: "\<exists>r \<in> set (table (snd (notify foo_request 5 initial_world))).
         domain r = ''foo.com'' \<and> email r = ''a@x.org'' \<and> \<not> notified r"
    by (simp add: normalize_foo foo_request_def)
  from t2 nd st have "normalize_domain ''foo'' = py_lower ''foo'' @ ''.com''"
    by blast
  then have c: "normalize_domain ''foo'' = ''foo.com''"
    by (simp add: lw)
  from a b c show ?thesis by blast
qed

text \<open>Claim C6 as stated has \<^verbatim>\<open>/check\<close> look up the lower-cased query followed by
  \<^verbatim>\<open>.com\<close> for every query without a dot. The query \<^verbatim>\<open>" foo"\<close> has no dot; the only
  lookup of the request is for \<^verbatim>\<open>foo.com\<close>, not for \<^verbatim>\<open>" foo.com"\<close>.\<close>

theorem check_domain_strips_query_counterexample:
  "\<not> has_dot '' foo''
   \<and> lookups_of (trace (snd (check_domain friendly_env
        (JObject [(''query'', JString '' foo''), (''max_suggestions'', JInt 0)]) initial_world)))
       = [''foo.com'']
   \<and> py_lower '' foo'' @ ''.com'' = '' foo.com''
   \<and> ''foo.com'' \<noteq> py_lower '' foo'' @ ''.com''"
proof -
  let ?kvs = "[(''query'', JString '' foo''), (''max_suggestions'', JInt 0)]"
  have f: "field ?kvs ''query'' (JString []) = JString '' foo''"
    and m: "py_int friendly_env (field ?kvs ''max_suggestions'' (JInt 6)) = Inr 0"
    by (simp_all add: field_def)
  have nd: "\<not> has_dot '' foo''" and lw: "py_lower '' foo'' @ ''.com'' = '' foo.com''"
    and n: "normalize_domain '' foo'' = ''foo.com''"
    by (simp_all add: has_dot_def normalize_domain_def py_strip_def py_isspace_def whitespace_def
        py_lower_def lower_char_def ascii_lowercase_def ascii_uppercase_def)
  have wc: "whoisxml_check friendly_env ''foo.com'' initial_world
      = (Inr True, \<lparr>table = [], requests_made = Suc 0, trace = [WhoisRequest ''foo.com'']\<rparr>)"
    by (simp add: whoisxml_check_def friendly_env_def available_body_result emit_def
        initial_world_def)
  have "lookups_of (trace (snd (check_domain friendly_env (JObject ?kvs) initial_world)))
       = [''foo.com'']"
    by (simp add: check_domain_fields [OF f m] n generate_suggestions_zero wc)
  with nd lw show ?thesis by simp
qed

end
